theory Spec2Isabelle
  imports Main "HOL-Library.Multiset"
begin

section \<open>nr-find-lib.js: the paginated inventory scan\<close>

text \<open>
  A shallow embedding of \<^verbatim>\<open>src/nr-find-lib.js\<close>. The program is a sequential
  chain of \<^verbatim>\<open>async\<close> functions with one \<^verbatim>\<open>await\<close> per network call, so it is
  modelled by explicit state passing: every function takes the state and returns the
  updated state together with either a value or the way control left the function
  (a JavaScript exception, or the end of the process).

  Conventions of the model:
  \<^item> a JSON field that may be \<^verbatim>\<open>null\<close> or missing is an \<open>option\<close>; \<open>None\<close> stands for
    both \<^verbatim>\<open>null\<close> and \<^verbatim>\<open>undefined\<close>, which every test of the source
    (\<^verbatim>\<open>if (x)\<close>, \<^verbatim>\<open>x && y\<close>, \<^verbatim>\<open>!x\<close>) treats alike;
  \<^item> responses have the shape the GraphQL queries of \<^verbatim>\<open>QUERIES\<close> ask for: numbers
    are integers, and the elements of a list are objects (strings in
    \<^verbatim>\<open>applicationGuids\<close>), never \<^verbatim>\<open>null\<close>;
  \<^item> the remote API is a script: the outcome of the n-th HTTPS request of the run,
    each of which ends (with a response or with an error).
\<close>

subsection \<open>JavaScript values and truthiness\<close>

text \<open>A string is truthy unless it is empty; \<open>None\<close> (null, undefined) is falsy.\<close>

fun truthy :: "string option \<Rightarrow> bool" where
  "truthy None = False"
| "truthy (Some s) = (s \<noteq> [])"

text \<open>
  A JavaScript number as far as the program meets one: an integer that a double holds
  (\<open>Num 0\<close> stands for both zeros, which print alike and are both falsy), an infinity or
  \<^verbatim>\<open>NaN\<close>.
\<close>

datatype jsnum = NaN | Num int | PosInfinity | NegInfinity

fun truthy_num :: "jsnum option \<Rightarrow> bool" where
  "truthy_num None = False"
| "truthy_num (Some NaN) = False"
| "truthy_num (Some (Num i)) = (i \<noteq> 0)"
| "truthy_num (Some PosInfinity) = True"
| "truthy_num (Some NegInfinity) = True"

text \<open>
  The Number value of a mathematical integer: the nearest double, ties to the even
  significand, and an infinity from \<open>2^1024 - 2^970\<close> on. \<open>bit_len n\<close> is the number of
  binary digits of \<open>n\<close>; \<open>round_double n\<close>, for \<open>n \<ge> 0\<close>, keeps the 53 leading ones.
\<close>

function bit_len :: "int \<Rightarrow> nat" where
  "bit_len n = (if n \<le> 0 then 0 else Suc (bit_len (n div 2)))"
  by pat_completeness auto

termination
  by (relation "measure nat") auto

declare bit_len.simps [simp del]

definition round_double :: "int \<Rightarrow> int" where
  "round_double n =
     (if n < 2 ^ 53 then n
      else (let e = bit_len n - 53; q = n div 2 ^ e; r = n mod 2 ^ e
            in (if 2 ^ e < 2 * r \<or> (2 * r = 2 ^ e \<and> odd q) then q + 1 else q) * 2 ^ e))"

definition Number_of :: "int \<Rightarrow> jsnum" where
  "Number_of i =
     (let m = round_double \<bar>i\<bar> in
      if 2 ^ 1024 \<le> m then (if i < 0 then NegInfinity else PosInfinity)
      else Num (if i < 0 then - m else m))"

fun starts_with :: "string \<Rightarrow> string \<Rightarrow> bool" where
  "starts_with s [] = True"
| "starts_with [] (c # cs) = False"
| "starts_with (x # xs) (c # cs) = (x = c \<and> starts_with xs cs)"

text \<open>\<^verbatim>\<open>String.prototype.includes\<close>.\<close>

fun str_includes :: "string \<Rightarrow> string \<Rightarrow> bool" where
  "str_includes [] n = (n = [])"
| "str_includes (x # xs) n = (starts_with (x # xs) n \<or> str_includes xs n)"

subsection \<open>Errors, events and the remote API\<close>

text \<open>
  An \<^verbatim>\<open>Error\<close> object as \<^verbatim>\<open>handleNetworkError\<close> reads it: its \<^verbatim>\<open>code\<close> property
  (Node.js uses strings such as \<^verbatim>\<open>ECONNRESET\<close>; OpenSSL verification codes are numbers)
  and the text of \<^verbatim>\<open>err.toString()\<close>.
\<close>

datatype errcode = NoCode | NumCode int | StrCode string

record jserror =
  err_code :: errcode
  err_toString :: string

text \<open>
  How control leaves a function other than by returning. \<open>Exit n\<close>: the process ends
  with status \<open>n\<close>, which no \<^verbatim>\<open>catch\<close> intercepts; this is \<^verbatim>\<open>process.exit(n)\<close> and, with
  status 1, an exception thrown where no \<^verbatim>\<open>try\<close> block and no promise is around it
  (the program installs no handler for uncaught exceptions, so Node.js reports the
  exception and ends the process). \<open>Throw e\<close>: an exception thrown inside an \<^verbatim>\<open>async\<close>
  function, which the \<^verbatim>\<open>catch\<close> clauses of its callers see.
\<close>

datatype abort = Exit nat | Throw jserror

definition TypeError :: jserror where
  "TypeError = \<lparr>err_code = NoCode, err_toString = ''TypeError''\<rparr>"

text \<open>The six query templates of \<^verbatim>\<open>QUERIES\<close>, and the variables sent with them.\<close>

datatype query = accessibleAccounts | getServices | getMoreServices
  | getModulesInEntity | getModulesInAccount | getMoreModulesInAccount

datatype var = VInt int | VStr "string option"

type_synonym variables = "(string \<times> var) list"

text \<open>
  A record of \<^verbatim>\<open>state.applications\<close>: the properties the program reads or writes on
  an application object. A property that was never written is \<open>None\<close>.
\<close>

record app =
  accountId :: "int option"
  applicationId :: "jsnum option"
  name :: "string option"
  guid :: "string option"
  reporting :: "bool option"
  nrUrl :: "string option"
  agentVersion :: "string option"
  examinedInstances :: "nat option"
  library :: "string option"
  libraryVersion :: "string option"
  librarySha1 :: "string option"
  librarySha512 :: "string option"

text \<open>
  What the program does to the outside: a request sent, a write to standard output or
  standard error, and \<^verbatim>\<open>fs.writeFileSync\<close> of a file, given by its name and the rows
  handed to the serialiser (\<^verbatim>\<open>JSON.stringify\<close> or \<^verbatim>\<open>toCSV\<close>).
\<close>

datatype event =
    Request query variables
  | Stdout string
  | Stderr string
  | WriteFile string "app list"

subsection \<open>Responses\<close>

text \<open>
  The fields of a response body that the program reads, named as in the queries (with a
  prefix where two GraphQL types share a field name).
\<close>

record attribute =
  attr_name :: "string option"
  attr_value :: "string option"

record module =
  mod_name :: "string option"
  mod_version :: "string option"
  mod_attributes :: "attribute list option"

record app_instance =
  inst_modules :: "module list option"

record versions =
  minVersion :: "string option"
  maxVersion :: "string option"

text \<open>\<^verbatim>\<open>actor.entity\<close> of \<^verbatim>\<open>getModulesInEntity\<close>.\<close>

record entity =
  applicationInstances :: "app_instance list option"
  runningAgentVersions :: "versions option"

text \<open>An element of \<^verbatim>\<open>actor.entitySearch.results.entities\<close>.\<close>

record outline =
  ol_guid :: "string option"
  ol_name :: "string option"
  ol_applicationId :: "int option"
  ol_accountId :: "int option"
  ol_reporting :: "bool option"

record search_results =
  sr_nextCursor :: "string option"
  sr_entities :: "outline list option"

record entitySearch =
  es_count :: "int option"
  es_results :: "search_results option"

record details =
  det_name :: "string option"
  det_host :: "string option"

text \<open>An element of \<^verbatim>\<open>actor.account.agentEnvironment.modules.results\<close>.\<close>

record module_result =
  mr_details :: "details option"
  mr_loadedModules :: "module list option"
  mr_applicationGuids :: "string list option"

record env_modules =
  em_nextCursor :: "string option"
  em_results :: "module_result list option"

record agentEnvironment =
  ae_modules :: "env_modules option"

record account =
  acc_agentEnvironment :: "agentEnvironment option"

record actor =
  act_entitySearch :: "entitySearch option"
  act_entity :: "entity option"
  act_account :: "account option"

record data =
  dt_actor :: "actor option"

text \<open>
  A parsed response body: \<open>resp_errors\<close> is \<open>Some e\<close> when \<^verbatim>\<open>response.errors\<close> is
  truthy, \<open>e\<close> being its \<^verbatim>\<open>JSON.stringify\<close> text; \<open>resp_data\<close> is \<open>Some d\<close> when
  \<^verbatim>\<open>response.data\<close> is truthy.
\<close>

record response =
  resp_errors :: "string option"
  resp_data :: "data option"

text \<open>
  What \<^verbatim>\<open>await buildRequestPromise(apiKey, payload)\<close> meets. \<open>Resolved r\<close>: the body
  is JSON and the promise resolves with the parsed body. \<open>Rejected e\<close>: the request emits
  \<^verbatim>\<open>error\<close> and the promise rejects with \<open>e\<close> (a body that is the JSON text \<^verbatim>\<open>null\<close>
  takes the same path: reading a property of it throws a \<^verbatim>\<open>TypeError\<close> \<open>e\<close> inside the
  \<^verbatim>\<open>try\<close> block). \<open>Malformed\<close>: the response ends with a body
  that is not JSON; \<^verbatim>\<open>JSON.parse(body)\<close> then throws inside the listener of \<^verbatim>\<open>end\<close>
  (line 625), which runs from the event loop: the exception is outside the promise's
  executor and outside both \<^verbatim>\<open>try\<close> blocks of \<^verbatim>\<open>nerdgraphQuery\<close>, the promise is never
  settled, and the process ends with status 1. A script gives the outcome of the n-th
  request of the run.
\<close>

datatype outcome = Resolved response | Rejected jserror | Malformed

type_synonym script = "nat \<Rightarrow> outcome"

text \<open>
  The world outside the program: everything written or sent so far, in order, and the
  number of requests sent.
\<close>

record world =
  out :: "event list"
  sent :: nat

definition stdout_write :: "string \<Rightarrow> 'a world_scheme \<Rightarrow> 'a world_scheme" where
  "stdout_write s w = w\<lparr>out := out w @ [Stdout s]\<rparr>"

definition stderr_write :: "string \<Rightarrow> 'a world_scheme \<Rightarrow> 'a world_scheme" where
  "stderr_write s w = w\<lparr>out := out w @ [Stderr s]\<rparr>"

definition buildRequestPromise ::
  "script \<Rightarrow> query \<Rightarrow> variables \<Rightarrow> 'a world_scheme \<Rightarrow> outcome \<times> 'a world_scheme" where
  "buildRequestPromise srv q vars w =
     (srv (sent w), w\<lparr>out := out w @ [Request q vars], sent := Suc (sent w)\<rparr>)"

subsection \<open>Transport: \<^verbatim>\<open>handleNetworkError\<close> and \<^verbatim>\<open>nerdgraphQuery\<close>\<close>

definition CERT_ERROR_HELP :: string where
  "CERT_ERROR_HELP =
   ''\<newline>\<newline>Uh oh, I think you're behind an HTTPS proxy with a self-signed or internal\<newline>'' @
   ''certificate, which can cause Node.js requests to the New Relic API to fail.\<newline>\<newline>'' @
   ''CAUTION: Someone could be maliciously intercepting your network traffic.\<newline>\<newline>'' @
   ''If you're sure this is a trusted proxy, you can work around this issue\<newline>'' @
   ''in two ways:\<newline>\<newline>'' @
   ''1. Recommended: Set NODE_EXTRA_CA_CERTS environment variable to reference\<newline>'' @
   ''a PEM file containing your proxy's certificate chain:\<newline>'' @
   [CHR 0x09] @ ''NODE_EXTRA_CA_CERTS=proxy-ca-root-cert.pem node nr-find-log4j.js\<newline>\<newline>'' @
   ''2. Unadvisable: Set NODE_TLS_REJECT_UNAUTHORIZED=0 environment variable to\<newline>'' @
   ''disable SSL certificate validation.\<newline>\<newline>'' @
   ''See the Node.js docs for help: https://nodejs.org/api/cli.html\<newline>\<newline>''"

text \<open>The test of \<^verbatim>\<open>handleNetworkError\<close> for a rejected proxy certificate.\<close>

definition is_cert_error :: "jserror \<Rightarrow> bool" where
  "is_cert_error err =
     (err_code err = NumCode 18 \<or> err_code err = NumCode 19 \<or>
      str_includes (err_toString err) ''self signed certificate'')"

definition handleNetworkError ::
  "jserror \<Rightarrow> 'a world_scheme \<Rightarrow> (abort + unit) \<times> 'a world_scheme" where
  "handleNetworkError err w =
     (let errString = err_toString err in
      if err_code err = NumCode 18 \<or> err_code err = NumCode 19 \<or>
         str_includes errString ''self signed certificate''
      then (Inl (Exit 5), stderr_write CERT_ERROR_HELP w)
      else (Inr (),
            stderr_write (''\<newline>Exception processing API call: '' @ errString @ ''\<newline>'') w))"

text \<open>
  The first \<^verbatim>\<open>try\<close> block of \<^verbatim>\<open>nerdgraphQuery\<close>. The result \<open>Inr (Some d)\<close> is
  \<^verbatim>\<open>return response.data\<close>; \<open>Inr None\<close> is falling through to the code after the block.
  With a body that is not JSON the \<^verbatim>\<open>await\<close> never resumes: the process has ended.
\<close>

definition first_try ::
  "script \<Rightarrow> query \<Rightarrow> variables \<Rightarrow> 'a world_scheme \<Rightarrow> (abort + data option) \<times> 'a world_scheme" where
  "first_try srv q vars w =
     (case buildRequestPromise srv q vars w of
        (Resolved response, w1) \<Rightarrow>
          (let w2 = (case resp_errors response of
                       Some e \<Rightarrow> stderr_write (''\<newline>Error returned from API: '' @ e @ ''\<newline>'') w1
                     | None \<Rightarrow> w1)
           in (Inr (resp_data response), w2))
      | (Rejected err, w1) \<Rightarrow>
          (case handleNetworkError err w1 of
             (Inl a, w2) \<Rightarrow> (Inl a, w2)
           | (Inr u, w2) \<Rightarrow> (Inr None, w2))
      | (Malformed, w1) \<Rightarrow> (Inl (Exit 1), w1))"

text \<open>The second \<^verbatim>\<open>try\<close> block: the same request again, without the test of
  \<^verbatim>\<open>response.errors\<close>.\<close>

definition second_try ::
  "script \<Rightarrow> query \<Rightarrow> variables \<Rightarrow> 'a world_scheme \<Rightarrow> (abort + data option) \<times> 'a world_scheme" where
  "second_try srv q vars w =
     (case buildRequestPromise srv q vars w of
        (Resolved response, w1) \<Rightarrow> (Inr (resp_data response), w1)
      | (Rejected err, w1) \<Rightarrow>
          (case handleNetworkError err w1 of
             (Inl a, w2) \<Rightarrow> (Inl a, w2)
           | (Inr u, w2) \<Rightarrow> (Inr None, w2))
      | (Malformed, w1) \<Rightarrow> (Inl (Exit 1), w1))"

text \<open>\<open>Inr None\<close> is \<^verbatim>\<open>return undefined\<close>.\<close>

definition nerdgraphQuery ::
  "script \<Rightarrow> query \<Rightarrow> variables \<Rightarrow> 'a world_scheme \<Rightarrow> (abort + data option) \<times> 'a world_scheme" where
  "nerdgraphQuery srv q vars w =
     (case first_try srv q vars w of
        (Inl a, w1) \<Rightarrow> (Inl a, w1)
      | (Inr (Some d), w1) \<Rightarrow> (Inr (Some d), w1)
      | (Inr None, w1) \<Rightarrow>
          (case second_try srv q vars w1 of
             (Inl a, w2) \<Rightarrow> (Inl a, w2)
           | (Inr (Some d), w2) \<Rightarrow> (Inr (Some d), w2)
           | (Inr None, w2) \<Rightarrow> (Inr None, w2)))"

subsection \<open>The scan state and the entity map\<close>

text \<open>
  \<^verbatim>\<open>STATE\<close> together with the world. \<open>applications\<close> holds the own properties of
  \<^verbatim>\<open>state.applications\<close> in the order of their creation (an object that does not exist
  yet is the empty list: \<^verbatim>\<open>state.applications || {}\<close>). \<open>clock\<close> and \<open>isoTime\<close> are what
  \<^verbatim>\<open>Date.now()\<close> and \<^verbatim>\<open>new Date().toISOString()\<close> return when the results are written.
  Keys that name a member of \<^verbatim>\<open>Object.prototype\<close> are outside the model.
\<close>

record state = world +
  libraryName :: string
  region :: string
  accountIds :: "int list"
  argv :: "string list"
  applications :: "(string \<times> app) list"
  scanStarted :: int
  scanCompleted :: "int option"
  scanDurationSec :: "int option"
  clock :: int
  isoTime :: string

text \<open>\<^verbatim>\<open>obj[k] = v\<close>: an existing property keeps its place, a new one comes last.\<close>

definition set_prop :: "string \<Rightarrow> app \<Rightarrow> (string \<times> app) list \<Rightarrow> (string \<times> app) list" where
  "set_prop k v m =
     (if k \<in> fst ` set m then map (\<lambda>(k', v'). if k' = k then (k', v) else (k', v')) m
      else m @ [(k, v)])"

text \<open>Mutation of the object stored under \<open>k\<close>, through a reference to it.\<close>

definition upd_at :: "string \<Rightarrow> (app \<Rightarrow> app) \<Rightarrow> (string \<times> app) list \<Rightarrow> (string \<times> app) list" where
  "upd_at k f m = map (\<lambda>(k', v'). if k' = k then (k', f v') else (k', v')) m"

definition is_digit :: "char \<Rightarrow> bool" where
  "is_digit c = (48 \<le> (of_char c :: nat) \<and> (of_char c :: nat) \<le> 57)"

definition digit_val :: "char \<Rightarrow> nat" where
  "digit_val c = of_char c - 48"

definition dec_val :: "string \<Rightarrow> nat" where
  "dec_val s = foldl (\<lambda>a c. 10 * a + digit_val c) 0 s"

text \<open>An array index of ECMAScript: a canonical numeric string below \<open>2^32 - 1\<close>.\<close>

definition is_array_index :: "string \<Rightarrow> bool" where
  "is_array_index s =
     (s \<noteq> [] \<and> list_all is_digit s \<and> (length s = 1 \<or> hd s \<noteq> CHR ''0'') \<and>
      dec_val s \<le> 4294967294)"

text \<open>
  The order of \<^verbatim>\<open>Object.values\<close>: array-index keys in ascending numeric order, then
  the other keys in the order of their creation.
\<close>

definition Object_entries :: "(string \<times> app) list \<Rightarrow> (string \<times> app) list" where
  "Object_entries m =
     sort_key (\<lambda>e. dec_val (fst e)) (filter (\<lambda>e. is_array_index (fst e)) m) @
     filter (\<lambda>e. \<not> is_array_index (fst e)) m"

definition Object_values :: "(string \<times> app) list \<Rightarrow> app list" where
  "Object_values m = map snd (Object_entries m)"

subsection \<open>Text of numbers\<close>

fun show_nat :: "nat \<Rightarrow> string" where
  "show_nat n =
     (if n < 10 then [char_of (48 + n)] else show_nat (n div 10) @ [char_of (48 + n mod 10)])"

declare show_nat.simps [simp del]

text \<open>
  \<^verbatim>\<open>Number::toString\<close> on a double that holds an integer \<open>x \<ge> 0\<close>; \<open>dec_digits n\<close> is
  the decimal expansion of \<open>n \<ge> 0\<close>. The digits are those
  of the integer with the fewest significant digits that has \<open>x\<close> as its Number value,
  of several such the one closest to \<open>x\<close>: \<open>shortest_from x j\<close> tries the multiples of
  \<open>10^j\<close> next to \<open>x\<close>, for \<open>j\<close> downwards. Below \<open>2^53\<close> every integer is a double, so
  the text is the decimal expansion. Up to 21 digits are written out, more give the
  exponent form.
\<close>

function dec_digits :: "int \<Rightarrow> string" where
  "dec_digits n =
     (if n < 10 then [char_of (nat (48 + n))]
      else dec_digits (n div 10) @ [char_of (nat (48 + n mod 10))])"
  by pat_completeness auto

termination
  by (relation "measure nat") auto

declare dec_digits.simps [simp del]

fun shortest_from :: "int \<Rightarrow> nat \<Rightarrow> int" where
  "shortest_from x 0 = x"
| "shortest_from x (Suc j) =
     (let u = 10 ^ Suc j; lo = x div u * u; hi = lo + u;
          lo_ok = (Number_of lo = Num x); hi_ok = (Number_of hi = Num x)
      in if lo_ok \<and> hi_ok
         then (if x - lo < hi - x \<or> (x - lo = hi - x \<and> even (lo div u)) then lo else hi)
         else if lo_ok then lo
         else if hi_ok then hi
         else shortest_from x j)"

definition Number_text :: "int \<Rightarrow> string" where
  "Number_text x =
     (if x < 2 ^ 53 then dec_digits x
      else (let ds = dec_digits (shortest_from x (length (dec_digits x) - 1));
                n = length ds;
                sig = rev (dropWhile (\<lambda>c. c = CHR ''0'') (rev ds))
            in if n \<le> 21 then ds
               else hd sig # (if tl sig = [] then [] else ''.'' @ tl sig) @
                    ''e+'' @ show_nat (n - 1)))"

definition show_num :: "jsnum \<Rightarrow> string" where
  "show_num v =
     (case v of
        NaN \<Rightarrow> ''NaN''
      | Num i \<Rightarrow> (if i < 0 then ''-'' @ Number_text (- i) else Number_text i)
      | PosInfinity \<Rightarrow> ''Infinity''
      | NegInfinity \<Rightarrow> ''-Infinity'')"

text \<open>The text of a number of the program that is given as an integer.\<close>

definition show_int :: "int \<Rightarrow> string" where
  "show_int i = show_num (Number_of i)"

text \<open>A value inside a template literal; \<^verbatim>\<open>null\<close> prints as its name.\<close>

definition tpl_int :: "int option \<Rightarrow> string" where
  "tpl_int v = (case v of None \<Rightarrow> ''null'' | Some i \<Rightarrow> show_int i)"

definition tpl_str :: "string option \<Rightarrow> string" where
  "tpl_str v = (case v of None \<Rightarrow> ''null'' | Some s \<Rightarrow> s)"

definition nrUrl_of :: "string \<Rightarrow> string \<Rightarrow> string" where
  "nrUrl_of acc appid =
     ''https://rpm.newrelic.com/accounts/'' @ acc @ ''/applications/'' @ appid @ ''/environment''"

text \<open>\<^verbatim>\<open>glyphs.charAt(batch % glyphs.length)\<close> between three backspaces and blanks.\<close>

definition glyph_text :: "nat \<Rightarrow> string" where
  "glyph_text batch =
     [CHR 0x08, CHR 0x08, CHR 0x08] @ '' '' @
     [[CHR 0x7C, CHR 0x2F, CHR 0x2D, CHR 0x5C] ! (batch mod 4)] @ '' ''"

subsection \<open>Helpers: \<^verbatim>\<open>concatNoneOrMore\<close>, \<^verbatim>\<open>getApplicationIdFromGuid\<close>\<close>

text \<open>\<^verbatim>\<open>[... new Set(vals)]\<close>: the first occurrence of each value, in order.\<close>

definition set_order :: "string list \<Rightarrow> string list" where
  "set_order vals = foldl (\<lambda>acc v. if v \<in> set acc then acc else acc @ [v]) [] vals"

fun join_comma :: "string list \<Rightarrow> string" where
  "join_comma [] = []"
| "join_comma [x] = x"
| "join_comma (x # y # ys) = x @ '','' @ join_comma (y # ys)"

text \<open>The arguments that are not passed are \<^verbatim>\<open>undefined\<close> and filtered out with the
  other blank ones, so the function is modelled on the list of its arguments.\<close>

definition concatNoneOrMore :: "string option list \<Rightarrow> string" where
  "concatNoneOrMore args =
     (let vals = map the (filter truthy args) in join_comma (set_order vals))"

text \<open>\<^verbatim>\<open>String.prototype.split\<close> on a one-character separator.\<close>

fun split_on :: "char \<Rightarrow> string \<Rightarrow> string list" where
  "split_on sep [] = [[]]"
| "split_on sep (c # cs) =
     (if c = sep then [] # split_on sep cs
      else (case split_on sep cs of [] \<Rightarrow> [[c]] | f # fs \<Rightarrow> (c # f) # fs))"

text \<open>\<^verbatim>\<open>arr[i]\<close>, \<^verbatim>\<open>undefined\<close> out of range.\<close>

definition nth_opt :: "'a list \<Rightarrow> nat \<Rightarrow> 'a option" where
  "nth_opt xs i = (if i < length xs then Some (xs ! i) else None)"

text \<open>
  \<^verbatim>\<open>parseInt\<close> with no radix, on the characters \<^verbatim>\<open>atob\<close> can produce: white space
  is skipped, then an optional sign, then \<^verbatim>\<open>0x\<close> selects radix 16, then the longest
  run of digits is read; no digit gives \<^verbatim>\<open>NaN\<close>, as does \<^verbatim>\<open>undefined\<close>. The result is
  the Number value of the integer read, correctly rounded as V8 does (the standard
  lets an implementation ignore decimal digits after the 20th).
\<close>

definition is_space :: "char \<Rightarrow> bool" where
  "is_space c = ((of_char c :: nat) \<in> {9, 10, 11, 12, 13, 32, 160})"

definition hex_val :: "char \<Rightarrow> nat option" where
  "hex_val c =
     (let n = (of_char c :: nat) in
      if 48 \<le> n \<and> n \<le> 57 then Some (n - 48)
      else if 97 \<le> n \<and> n \<le> 102 then Some (n - 87)
      else if 65 \<le> n \<and> n \<le> 70 then Some (n - 55)
      else None)"

definition digits_of :: "nat \<Rightarrow> string \<Rightarrow> nat list" where
  "digits_of radix s =
     map (\<lambda>c. the (hex_val c))
       (takeWhile (\<lambda>c. case hex_val c of None \<Rightarrow> False | Some d \<Rightarrow> d < radix) s)"

definition parse_digits :: "nat \<Rightarrow> string \<Rightarrow> jsnum" where
  "parse_digits radix s =
     (case digits_of radix s of
        [] \<Rightarrow> NaN
      | d # ds \<Rightarrow> Number_of (foldl (\<lambda>a x. int radix * a + int x) 0 (d # ds)))"

definition neg_num :: "jsnum \<Rightarrow> jsnum" where
  "neg_num v =
     (case v of
        NaN \<Rightarrow> NaN
      | Num i \<Rightarrow> Num (- i)
      | PosInfinity \<Rightarrow> NegInfinity
      | NegInfinity \<Rightarrow> PosInfinity)"

definition parse_unsigned :: "string \<Rightarrow> jsnum" where
  "parse_unsigned s =
     (if starts_with s ''0x'' \<or> starts_with s ''0X'' then parse_digits 16 (drop 2 s)
      else parse_digits 10 s)"

definition parseInt :: "string option \<Rightarrow> jsnum" where
  "parseInt v =
     (case v of
        None \<Rightarrow> NaN
      | Some s \<Rightarrow>
          (case dropWhile is_space s of
             [] \<Rightarrow> NaN
           | c # cs \<Rightarrow>
               if c = CHR ''-'' then neg_num (parse_unsigned cs)
               else if c = CHR ''+'' then parse_unsigned cs
               else parse_unsigned (c # cs)))"

text \<open>
  \<^verbatim>\<open>atob\<close> belongs to the platform, not to the program, and is a parameter of the
  model: \<open>None\<close> is the exception it throws (on Node.js 12 and 14, where the global
  does not exist, every call throws).
\<close>

type_synonym atob = "string \<Rightarrow> string option"

definition getApplicationIdFromGuid :: "atob \<Rightarrow> string \<Rightarrow> jsnum option" where
  "getApplicationIdFromGuid atob g =
     (if g = [] then None
      else (case atob g of
              None \<Rightarrow> None
            | Some decodedString \<Rightarrow>
                (let splitString = split_on CHR ''|'' decodedString
                 in Some (parseInt (nth_opt splitString 3)))))"

subsection \<open>Reporter: \<^verbatim>\<open>writeResults\<close>\<close>

definition fs_writeFileSync :: "string \<Rightarrow> app list \<Rightarrow> 'a world_scheme \<Rightarrow> 'a world_scheme" where
  "fs_writeFileSync file rows w = w\<lparr>out := out w @ [WriteFile file rows]\<rparr>"

text \<open>\<^verbatim>\<open>Math.ceil(ms / 1000)\<close> on integers.\<close>

definition ceil_sec :: "int \<Rightarrow> int" where
  "ceil_sec ms = - ((- ms) div 1000)"

text \<open>The rows the reporter hands to the serialiser.\<close>

definition reported :: "bool \<Rightarrow> (string \<times> app) list \<Rightarrow> app list" where
  "reported includeAllApplications m =
     (let applications = Object_values m;
          vulnerableApplications = filter (\<lambda>a. truthy (library a)) applications
      in if includeAllApplications then applications else vulnerableApplications)"

definition writeResults :: "state \<Rightarrow> state" where
  "writeResults st =
     (let useJson = ''--json'' \<in> set (argv st);
          useCsv = (''--csv'' \<in> set (argv st) \<or> \<not> useJson);
          includeAllApplications = ''--all-services'' \<in> set (argv st);
          vulnerableApplications = filter (\<lambda>a. truthy (library a)) (Object_values (applications st));
          st1 = st\<lparr>scanCompleted := Some (clock st),
                    scanDurationSec := Some (ceil_sec (clock st - scanStarted st))\<rparr>;
          st2 = stdout_write (''\<newline>OK, scan took '' @ show_int (ceil_sec (clock st - scanStarted st)) @
                  '' seconds. Found '' @ show_nat (length vulnerableApplications) @
                  '' services with log4j-core.\<newline>'') st1;
          fileTimestamp = map (\<lambda>c. if c = CHR '':'' then CHR ''-'' else c) (isoTime st);
          base = libraryName st @ ''_scan_'' @ region st @ ''_'' @ fileTimestamp;
          st3 = (if useJson
                 then stdout_write (''Wrote results to '' @ base @ ''.json'' @ ''\<newline>'')
                        (fs_writeFileSync (base @ ''.json'')
                           (reported includeAllApplications (applications st)) st2)
                 else st2)
      in if useCsv
         then stdout_write (''Wrote results to '' @ base @ ''.csv'' @ ''\<newline>'')
                (fs_writeFileSync (base @ ''.csv'')
                   (reported includeAllApplications (applications st)) st3)
         else st3)"

subsection \<open>Per-entity enricher: \<^verbatim>\<open>findModulesByEntity\<close>\<close>

text \<open>The two \<^verbatim>\<open>if\<close> statements on one attribute of a module.\<close>

definition apply_attribute :: "app \<Rightarrow> attribute \<Rightarrow> app" where
  "apply_attribute a at =
     (let a1 = (if attr_name at = Some ''sha1Checksum'' \<and> truthy (attr_value at)
                then a\<lparr>librarySha1 := attr_value at\<rparr> else a)
      in if attr_name at = Some ''sha512Checksum'' \<and> truthy (attr_value at)
         then a1\<lparr>librarySha512 := attr_value at\<rparr> else a1)"

text \<open>The body of \<^verbatim>\<open>for (const module of ...)\<close>, the same in both enrichers.\<close>

definition apply_module :: "app \<Rightarrow> module \<Rightarrow> app" where
  "apply_module a m =
     (let a1 = a\<lparr>library := mod_name m, libraryVersion := mod_version m\<rparr>
      in case mod_attributes m of
           None \<Rightarrow> a1
         | Some ats \<Rightarrow> foldl apply_attribute a1 ats)"

text \<open>The body of \<^verbatim>\<open>for (const instance of ...)\<close>, on the record and \<^verbatim>\<open>instanceCount\<close>.\<close>

definition apply_instance :: "app \<times> nat \<Rightarrow> app_instance \<Rightarrow> app \<times> nat" where
  "apply_instance ac inst =
     (case inst_modules inst of
        None \<Rightarrow> ac
      | Some ms \<Rightarrow>
          if length ms > 0 then (foldl apply_module (fst ac) ms, snd ac + 1) else ac)"

text \<open>Lines 363 to 390: what a response with \<^verbatim>\<open>applicationInstances\<close> does to the record.\<close>

definition merge_entity :: "entity \<Rightarrow> app_instance list \<Rightarrow> app \<Rightarrow> app" where
  "merge_entity e insts a =
     (let a1 = (case runningAgentVersions e of
                  None \<Rightarrow> a
                | Some v \<Rightarrow> a\<lparr>agentVersion := Some (concatNoneOrMore [minVersion v, maxVersion v])\<rparr>);
          ac = foldl apply_instance (a1, 0) insts
      in (fst ac)\<lparr>examinedInstances := Some (snd ac)\<rparr>)"

text \<open>The test \<^verbatim>\<open>data && data.actor && data.actor.entity && ....applicationInstances\<close>.\<close>

definition entity_shape :: "data option \<Rightarrow> (entity \<times> app_instance list) option" where
  "entity_shape dat =
     (case dat of None \<Rightarrow> None | Some d \<Rightarrow>
      (case dt_actor d of None \<Rightarrow> None | Some ac \<Rightarrow>
       (case act_entity ac of None \<Rightarrow> None | Some e \<Rightarrow>
        (case applicationInstances e of None \<Rightarrow> None | Some insts \<Rightarrow> Some (e, insts)))))"

definition scanning_text :: "nat \<Rightarrow> nat \<Rightarrow> string" where
  "scanning_text progress entityCount =
     [CHR 0x0D] @ ''Scanning modules (service '' @ show_nat progress @ '' of '' @
     show_nat entityCount @ '')...      ''"

definition entity_warning :: "app \<Rightarrow> string" where
  "entity_warning application =
     ''\<newline>Warning: failed to get library list for '' @ tpl_str (guid application) @
     '' - please check this service manually at '' @ tpl_str (nrUrl application) @ ''\<newline>''"

text \<open>
  One turn of the loop over \<^verbatim>\<open>Object.values(state.applications)\<close>, for the object
  stored under \<open>k\<close>: the \<^verbatim>\<open>try\<close> statement and the progress line. The end of the
  process inside the call ends the run; an exception would be caught and reported.
\<close>

definition entity_step ::
  "script \<Rightarrow> string \<times> app \<Rightarrow> nat \<Rightarrow> nat \<Rightarrow> state \<Rightarrow> (abort + unit) \<times> state" where
  "entity_step srv ka progress entityCount st =
     (let k = fst ka; application = snd ka in
      case nerdgraphQuery srv getModulesInEntity
             [(''entityGuid'', VStr (guid application)),
              (''libraryName'', VStr (Some (libraryName st)))] st of
        (Inl (Exit c), st1) \<Rightarrow> (Inl (Exit c), st1)
      | (Inl (Throw err), st1) \<Rightarrow>
          (Inr (), stdout_write (scanning_text (progress + 1) entityCount)
             (stderr_write (''\<newline>Error fetching data for '' @ tpl_str (guid application) @
                '': '' @ err_toString err @ ''\<newline>'') st1))
      | (Inr dat, st1) \<Rightarrow>
          (Inr (), stdout_write (scanning_text (progress + 1) entityCount)
             (case entity_shape dat of
                Some (e, insts) \<Rightarrow>
                  st1\<lparr>applications := upd_at k (merge_entity e insts) (applications st1)\<rparr>
              | None \<Rightarrow> stderr_write (entity_warning application) st1)))"

fun entity_loop ::
  "script \<Rightarrow> (string \<times> app) list \<Rightarrow> nat \<Rightarrow> nat \<Rightarrow> state \<Rightarrow> (abort + unit) \<times> state" where
  "entity_loop srv [] progress entityCount st = (Inr (), st)"
| "entity_loop srv (ka # rest) progress entityCount st =
     (case entity_step srv ka progress entityCount st of
        (Inl a, st1) \<Rightarrow> (Inl a, st1)
      | (Inr u, st1) \<Rightarrow> entity_loop srv rest (progress + 1) entityCount st1)"

definition findModulesByEntity :: "script \<Rightarrow> state \<Rightarrow> (abort + unit) \<times> state" where
  "findModulesByEntity srv st =
     (let entityCount = length (Object_values (applications st)) in
      case entity_loop srv (Object_entries (applications st)) 0 entityCount
             (stdout_write (scanning_text 0 entityCount) st) of
        (Inl a, st1) \<Rightarrow> (Inl a, st1)
      | (Inr u, st1) \<Rightarrow>
          (Inr (), writeResults (stdout_write
             ([CHR 0x0D] @ ''Scanning modules (service '' @ show_nat entityCount @ '' of '' @
              show_nat entityCount @ '')...  done.\<newline>'') st1)))"

subsection \<open>Per-account enricher: \<^verbatim>\<open>findModulesByAccount\<close>\<close>

text \<open>The two \<^verbatim>\<open>replace\<close> calls on the host's name: a leading \<^verbatim>\<open>java:\<close> and a
  trailing colon with digits are removed.\<close>

definition strip_port :: "string \<Rightarrow> string" where
  "strip_port s =
     (let r = rev s; ds = takeWhile is_digit r; rest = dropWhile is_digit r
      in if ds \<noteq> [] \<and> starts_with rest '':'' then rev (tl rest) else s)"

definition appName_of :: "string \<Rightarrow> string" where
  "appName_of nm = strip_port (if starts_with nm ''java:'' then drop 5 nm else nm)"

text \<open>The record built when \<^verbatim>\<open>state.applications[guid]\<close> is missing.\<close>

definition synthesized :: "atob \<Rightarrow> int \<Rightarrow> string \<Rightarrow> string \<Rightarrow> app" where
  "synthesized atob accId appName g =
     (let appId = getApplicationIdFromGuid atob g in
      \<lparr>accountId = Some accId,
       applicationId = appId,
       name = Some appName,
       guid = Some g,
       reporting = None,
       nrUrl = Some (if truthy_num appId
                     then nrUrl_of (show_int accId) (case appId of Some v \<Rightarrow> show_num v | None \<Rightarrow> [])
                     else []),
       agentVersion = None,
       examinedInstances = None,
       library = None,
       libraryVersion = None,
       librarySha1 = None,
       librarySha512 = None\<rparr>)"

text \<open>The body of \<^verbatim>\<open>for (const guid of entityGuids)\<close>.\<close>

definition apply_guid ::
  "atob \<Rightarrow> int \<Rightarrow> string \<Rightarrow> module \<Rightarrow> (string \<times> app) list \<Rightarrow> string \<Rightarrow> (string \<times> app) list" where
  "apply_guid atob accId appName m apps g =
     (let apps1 = (if map_of apps g = None
                   then set_prop g (synthesized atob accId appName g) apps else apps)
      in upd_at g (\<lambda>application. apply_module application m) apps1)"

definition guid_warning :: "string \<Rightarrow> string option \<Rightarrow> module \<Rightarrow> string" where
  "guid_warning appName host m =
     ''\<newline>Warning: result w/out a guid found:'' @ [CHR 0x09] @ appName @ [CHR 0x09] @
     tpl_str host @ [CHR 0x09] @ tpl_str (mod_name m) @ [CHR 0x09] @ tpl_str (mod_version m) @
     ''      ''"

text \<open>The body of \<^verbatim>\<open>for (const module of result['loadedModules'])\<close>: iterating
  \<^verbatim>\<open>entityGuids\<close> throws when it is \<^verbatim>\<open>null\<close>.\<close>

definition apply_loaded ::
  "atob \<Rightarrow> int \<Rightarrow> string \<Rightarrow> string option \<Rightarrow> string list option \<Rightarrow> module \<Rightarrow> state \<Rightarrow> (abort + unit) \<times> state" where
  "apply_loaded atob accId appName host entityGuids m st =
     (case entityGuids of
        None \<Rightarrow> (Inl (Throw TypeError), stdout_write (guid_warning appName host m) st)
      | Some gs \<Rightarrow>
          (let st1 = (if length gs < 1 then stdout_write (guid_warning appName host m) st else st)
           in (Inr (), st1\<lparr>applications := foldl (apply_guid atob accId appName m) (applications st1) gs\<rparr>)))"

fun loaded_loop ::
  "atob \<Rightarrow> int \<Rightarrow> string \<Rightarrow> string option \<Rightarrow> string list option \<Rightarrow> module list \<Rightarrow> state \<Rightarrow> (abort + unit) \<times> state" where
  "loaded_loop atob accId appName host entityGuids [] st = (Inr (), st)"
| "loaded_loop atob accId appName host entityGuids (m # ms) st =
     (case apply_loaded atob accId appName host entityGuids m st of
        (Inl a, st1) \<Rightarrow> (Inl a, st1)
      | (Inr u, st1) \<Rightarrow> loaded_loop atob accId appName host entityGuids ms st1)"

text \<open>
  The body of \<^verbatim>\<open>for (const result of moduleResults || [])\<close>. Reading \<^verbatim>\<open>length\<close> of a
  missing \<^verbatim>\<open>loadedModules\<close>, destructuring a missing \<^verbatim>\<open>details\<close> and calling
  \<^verbatim>\<open>replace\<close> on a missing \<^verbatim>\<open>name\<close> throw.
\<close>

definition process_result :: "atob \<Rightarrow> int \<Rightarrow> module_result \<Rightarrow> state \<Rightarrow> (abort + unit) \<times> state" where
  "process_result atob accId result st =
     (case mr_loadedModules result of
        None \<Rightarrow> (Inl (Throw TypeError), st)
      | Some loaded \<Rightarrow>
          if length loaded > 0 then
            (case mr_details result of
               None \<Rightarrow> (Inl (Throw TypeError), st)
             | Some det \<Rightarrow>
                 (case det_name det of
                    None \<Rightarrow> (Inl (Throw TypeError), st)
                  | Some nm \<Rightarrow>
                      loaded_loop atob accId (appName_of nm) (det_host det)
                        (mr_applicationGuids result) loaded st))
          else (Inr (), st))"

fun results_loop :: "atob \<Rightarrow> int \<Rightarrow> module_result list \<Rightarrow> state \<Rightarrow> (abort + unit) \<times> state" where
  "results_loop atob accId [] st = (Inr (), st)"
| "results_loop atob accId (r # rs) st =
     (case process_result atob accId r st of
        (Inl a, st1) \<Rightarrow> (Inl a, st1)
      | (Inr u, st1) \<Rightarrow> results_loop atob accId rs st1)"

text \<open>The condition of the \<^verbatim>\<open>while\<close> loop.\<close>

definition modules_shape :: "data option \<Rightarrow> env_modules option" where
  "modules_shape dat =
     (case dat of None \<Rightarrow> None | Some d \<Rightarrow>
      (case dt_actor d of None \<Rightarrow> None | Some ac \<Rightarrow>
       (case act_account ac of None \<Rightarrow> None | Some acc \<Rightarrow>
        (case acc_agentEnvironment acc of None \<Rightarrow> None | Some env \<Rightarrow> ae_modules env))))"

text \<open>
  The \<^verbatim>\<open>while\<close> loop over the pages of one account. Nothing bounds the number of
  pages, so the loop is a partial function: \<open>None\<close> is a run that never leaves it.
\<close>

partial_function (option) account_pages ::
  "atob \<Rightarrow> script \<Rightarrow> int \<Rightarrow> nat \<Rightarrow> data option \<Rightarrow> state \<Rightarrow> ((abort + unit) \<times> state) option" where
  "account_pages atob srv accId batch dat st =
     (case modules_shape dat of
        None \<Rightarrow> Some (Inr (), st)
      | Some ms \<Rightarrow>
          (case results_loop atob accId (case em_results ms of None \<Rightarrow> [] | Some rs \<Rightarrow> rs) st of
             (Inl a, st1) \<Rightarrow> Some (Inl a, st1)
           | (Inr u, st1) \<Rightarrow>
               if truthy (em_nextCursor ms) then
                 (case nerdgraphQuery srv getMoreModulesInAccount
                         [(''accountId'', VInt accId), (''cursor'', VStr (em_nextCursor ms)),
                          (''libraryName'', VStr (Some (libraryName st1)))]
                         (stdout_write (glyph_text batch) st1) of
                    (Inl a, st2) \<Rightarrow> Some (Inl a, st2)
                  | (Inr dat', st2) \<Rightarrow> account_pages atob srv accId (batch + 1) dat' st2)
               else Some (Inr (), st1)))"

text \<open>The \<^verbatim>\<open>try\<close> block for one account.\<close>

definition account_try :: "atob \<Rightarrow> script \<Rightarrow> int \<Rightarrow> state \<Rightarrow> ((abort + unit) \<times> state) option" where
  "account_try atob srv accId st =
     (case nerdgraphQuery srv getModulesInAccount
             [(''accountId'', VInt accId), (''libraryName'', VStr (Some (libraryName st)))] st of
        (Inl a, st1) \<Rightarrow> Some (Inl a, st1)
      | (Inr dat, st1) \<Rightarrow> account_pages atob srv accId 1 dat st1)"

text \<open>One turn of the loop over \<^verbatim>\<open>state.accountIds\<close>: the \<^verbatim>\<open>catch\<close> clause reports an
  exception and the loop goes on; the end of the process ends the run.\<close>

definition account_step ::
  "atob \<Rightarrow> script \<Rightarrow> int \<Rightarrow> nat \<Rightarrow> nat \<Rightarrow> state \<Rightarrow> ((abort + unit) \<times> state) option" where
  "account_step atob srv accId progress accountCount st =
     (case account_try atob srv accId
             (stdout_write ([CHR 0x0D] @ ''Scanning modules (account '' @ show_int accId @ '' - '' @
                show_nat (progress + 1) @ '' of '' @ show_nat accountCount @ '')...        '') st) of
        None \<Rightarrow> None
      | Some (Inl (Exit c), st1) \<Rightarrow> Some (Inl (Exit c), st1)
      | Some (Inl (Throw err), st1) \<Rightarrow>
          Some (Inr (), stderr_write (''\<newline>Error fetching data for account '' @ show_int accId @
                  '': '' @ err_toString err @ ''\<newline>'') st1)
      | Some (Inr u, st1) \<Rightarrow> Some (Inr (), st1))"

fun account_loop ::
  "atob \<Rightarrow> script \<Rightarrow> int list \<Rightarrow> nat \<Rightarrow> nat \<Rightarrow> state \<Rightarrow> ((abort + unit) \<times> state) option" where
  "account_loop atob srv [] progress accountCount st = Some (Inr (), st)"
| "account_loop atob srv (accId # rest) progress accountCount st =
     (case account_step atob srv accId progress accountCount st of
        None \<Rightarrow> None
      | Some (Inl a, st1) \<Rightarrow> Some (Inl a, st1)
      | Some (Inr u, st1) \<Rightarrow> account_loop atob srv rest (progress + 1) accountCount st1)"

definition findModulesByAccount :: "atob \<Rightarrow> script \<Rightarrow> state \<Rightarrow> ((abort + unit) \<times> state) option" where
  "findModulesByAccount atob srv st =
     (let accountCount = length (accountIds st) in
      case account_loop atob srv (accountIds st) 0 accountCount st of
        None \<Rightarrow> None
      | Some (Inl a, st1) \<Rightarrow> Some (Inl a, st1)
      | Some (Inr u, st1) \<Rightarrow>
          Some (Inr (), writeResults (stdout_write
             ([CHR 0x0D] @ ''Scanning modules ('' @ show_nat accountCount @ '' of '' @
              show_nat accountCount @ '')... done.                  \<newline>'') st1)))"

subsection \<open>Entity directory builder: \<^verbatim>\<open>findServices\<close>\<close>

text \<open>The entity object itself is stored, with \<^verbatim>\<open>nrUrl\<close> added.\<close>

definition app_of_outline :: "outline \<Rightarrow> app" where
  "app_of_outline e =
     \<lparr>accountId = ol_accountId e,
      applicationId = map_option Num (ol_applicationId e),
      name = ol_name e,
      guid = ol_guid e,
      reporting = ol_reporting e,
      nrUrl = Some (nrUrl_of (tpl_int (ol_accountId e)) (tpl_int (ol_applicationId e))),
      agentVersion = None,
      examinedInstances = None,
      library = None,
      libraryVersion = None,
      librarySha1 = None,
      librarySha512 = None\<rparr>"

text \<open>The body of \<^verbatim>\<open>for (const application of ...['entities'])\<close>.\<close>

definition add_entity :: "(string \<times> app) list \<Rightarrow> outline \<Rightarrow> (string \<times> app) list" where
  "add_entity m e =
     (case ol_guid e of
        None \<Rightarrow> m
      | Some g \<Rightarrow> if g \<noteq> [] then set_prop g (app_of_outline e) m else m)"

text \<open>\<^verbatim>\<open>resultSet['actor']['entitySearch']\<close>: a missing link throws.\<close>

definition search_of :: "data option \<Rightarrow> entitySearch option" where
  "search_of dat =
     (case dat of None \<Rightarrow> None | Some d \<Rightarrow>
      (case dt_actor d of None \<Rightarrow> None | Some ac \<Rightarrow> act_entitySearch ac))"

text \<open>\<^verbatim>\<open>resultSet['actor']['entitySearch']['results']\<close> with its \<^verbatim>\<open>entities\<close>, which
  must be iterable.\<close>

definition page_of :: "data \<Rightarrow> (outline list \<times> string option) option" where
  "page_of d =
     (case search_of (Some d) of None \<Rightarrow> None | Some es \<Rightarrow>
      (case es_results es of None \<Rightarrow> None | Some r \<Rightarrow>
       (case sr_entities r of None \<Rightarrow> None | Some ents \<Rightarrow> Some (ents, sr_nextCursor r))))"

text \<open>
  The \<^verbatim>\<open>while (resultSet)\<close> loop. Nothing bounds the number of pages: \<open>None\<close> is a
  run that never leaves the loop.
\<close>

partial_function (option) services_loop ::
  "script \<Rightarrow> nat \<Rightarrow> data option \<Rightarrow> state \<Rightarrow> ((abort + unit) \<times> state) option" where
  "services_loop srv batch resultSet st =
     (case resultSet of
        None \<Rightarrow> Some (Inr (), st)
      | Some d \<Rightarrow>
          (case page_of d of
             None \<Rightarrow> Some (Inl (Throw TypeError), st)
           | Some (ents, cursor) \<Rightarrow>
               if truthy cursor then
                 (case nerdgraphQuery srv getMoreServices [(''cursor'', VStr cursor)]
                         (stdout_write (glyph_text batch)
                            (st\<lparr>applications := foldl add_entity (applications st) ents\<rparr>)) of
                    (Inl a, st2) \<Rightarrow> Some (Inl a, st2)
                  | (Inr rs, st2) \<Rightarrow> services_loop srv (batch + 1) rs st2)
               else Some (Inr (), st\<lparr>applications := foldl add_entity (applications st) ents\<rparr>)))"

text \<open>Lines 309 to 336 of \<^verbatim>\<open>findServices\<close>: the directory is built.\<close>

definition buildDirectory :: "script \<Rightarrow> state \<Rightarrow> ((abort + unit) \<times> state) option" where
  "buildDirectory srv st =
     (case nerdgraphQuery srv getServices []
             (stdout_write ''Scanning your accounts, this may take some time...\<newline>'' st) of
        (Inl a, st1) \<Rightarrow> Some (Inl a, st1)
      | (Inr resultSet, st1) \<Rightarrow>
          (case search_of resultSet of
             None \<Rightarrow> Some (Inl (Throw TypeError), st1)
           | Some es \<Rightarrow>
               (case services_loop srv 1 resultSet
                       (stdout_write (''Checking '' @ tpl_int (es_count es) @ '' services...   '') st1) of
                  None \<Rightarrow> None
                | Some (Inl a, st2) \<Rightarrow> Some (Inl a, st2)
                | Some (Inr u, st2) \<Rightarrow>
                    Some (Inr (), stdout_write
                      ([CHR 0x08, CHR 0x08, CHR 0x08] @ '' done. Actual service count is '' @
                       show_nat (length (Object_values (applications st2))) @ ''.\<newline>'') st2))))"

text \<open>Lines 342 to 346: the strategy is chosen and run.\<close>

definition findServices :: "atob \<Rightarrow> script \<Rightarrow> state \<Rightarrow> ((abort + unit) \<times> state) option" where
  "findServices atob srv st =
     (case buildDirectory srv st of
        None \<Rightarrow> None
      | Some (Inl a, st1) \<Rightarrow> Some (Inl a, st1)
      | Some (Inr u, st1) \<Rightarrow>
          if ''--quick-scan'' \<notin> set (argv st1) then Some (findModulesByEntity srv st1)
          else findModulesByAccount atob srv st1)"

subsection \<open>Observations on a run\<close>

text \<open>The requests among the events of a run, in the order they were sent.\<close>

fun requests :: "event list \<Rightarrow> (query \<times> variables) list" where
  "requests [] = []"
| "requests (Request q v # es) = (q, v) # requests es"
| "requests (Stdout s # es) = requests es"
| "requests (Stderr s # es) = requests es"
| "requests (WriteFile f rows # es) = requests es"

text \<open>The texts written to standard error.\<close>

fun stderr_of :: "event list \<Rightarrow> string list" where
  "stderr_of [] = []"
| "stderr_of (Stderr s # es) = s # stderr_of es"
| "stderr_of (Request q v # es) = stderr_of es"
| "stderr_of (Stdout s # es) = stderr_of es"
| "stderr_of (WriteFile f rows # es) = stderr_of es"

text \<open>The files written, with their rows.\<close>

fun files_of :: "event list \<Rightarrow> (string \<times> app list) list" where
  "files_of [] = []"
| "files_of (WriteFile f rows # es) = (f, rows) # files_of es"
| "files_of (Request q v # es) = files_of es"
| "files_of (Stdout s # es) = files_of es"
| "files_of (Stderr s # es) = files_of es"

subsection \<open>What a lookup response says\<close>

text \<open>
  The notions in which the properties of the per-entity merge are stated: the modules
  of a response in iteration order, the instances that report a module, and the
  checksum a module carries under a name (the value of its last attribute of that
  name whose value is not blank).
\<close>

definition all_modules :: "app_instance list \<Rightarrow> module list" where
  "all_modules insts =
     concat (map (\<lambda>i. case inst_modules i of None \<Rightarrow> [] | Some ms \<Rightarrow> ms) insts)"

definition reporting_instances :: "app_instance list \<Rightarrow> app_instance list" where
  "reporting_instances insts =
     filter (\<lambda>i. case inst_modules i of None \<Rightarrow> False | Some ms \<Rightarrow> ms \<noteq> []) insts"

definition attr_checksum :: "string \<Rightarrow> attribute list \<Rightarrow> string option" where
  "attr_checksum nm ats =
     (case filter (\<lambda>at. attr_name at = Some nm \<and> truthy (attr_value at)) ats of
        [] \<Rightarrow> None
      | x # xs \<Rightarrow> attr_value (last (x # xs)))"

definition module_checksum :: "string \<Rightarrow> module \<Rightarrow> string option" where
  "module_checksum nm m =
     attr_checksum nm (case mod_attributes m of None \<Rightarrow> [] | Some ats \<Rightarrow> ats)"

text \<open>The checksum of the last module that carries one.\<close>

definition modules_checksum :: "string \<Rightarrow> module list \<Rightarrow> string option" where
  "modules_checksum nm ms =
     (case filter (\<lambda>m. module_checksum nm m \<noteq> None) ms of
        [] \<Rightarrow> None
      | x # xs \<Rightarrow> module_checksum nm (last (x # xs)))"

definition or_else :: "'a option \<Rightarrow> 'a option \<Rightarrow> 'a option" where
  "or_else new old = (case new of None \<Rightarrow> old | Some v \<Rightarrow> Some v)"

subsection \<open>What the pages of the directory say\<close>

text \<open>
  A page is the list of its entities with its \<^verbatim>\<open>nextCursor\<close>. \<open>serves srv n ps\<close>: the
  requests from the n-th on are answered, one after the other, with data that holds
  the pages \<open>ps\<close>. \<open>chained ps\<close>: every page but the last carries a non-empty cursor and
  the last one carries none. \<open>directory_of es\<close>: the map from a non-empty guid to the
  record of the last entity of \<open>es\<close> with that guid. \<open>more_requests ps\<close>: one
  \<^verbatim>\<open>getMoreServices\<close> request for every page but the last, with the cursor of that page.
\<close>

fun serves :: "script \<Rightarrow> nat \<Rightarrow> (outline list \<times> string option) list \<Rightarrow> bool" where
  "serves srv n [] = True"
| "serves srv n (p # ps) =
     ((case srv n of
         Resolved r \<Rightarrow> (case resp_data r of None \<Rightarrow> False | Some d \<Rightarrow> page_of d = Some p)
       | _ \<Rightarrow> False) \<and>
      serves srv (Suc n) ps)"

fun chained :: "(outline list \<times> string option) list \<Rightarrow> bool" where
  "chained [] = False"
| "chained [p] = (\<not> truthy (snd p))"
| "chained (p # q # ps) = (truthy (snd p) \<and> chained (q # ps))"

definition directory_of :: "outline list \<Rightarrow> string \<Rightarrow> app option" where
  "directory_of es g =
     (if g = [] then None
      else (case filter (\<lambda>e. ol_guid e = Some g) es of
              [] \<Rightarrow> None
            | x # xs \<Rightarrow> Some (app_of_outline (last (x # xs)))))"

definition more_requests :: "(outline list \<times> string option) list \<Rightarrow> (query \<times> variables) list" where
  "more_requests ps = map (\<lambda>p. (getMoreServices, [(''cursor'', VStr (snd p))])) (butlast ps)"

subsection \<open>Runs that meet a rejected certificate\<close>

text \<open>
  \<open>cert_rejected srv n\<close>: the n-th request is rejected with an error of the certificate
  class. \<open>aborted r\<close>: how a result left the function, if it did not return.
  \<open>fatal_stop srv n0 a w\<close> speaks of a run that started when \<open>n0\<close> requests had been
  sent and ended in the world \<open>w\<close>, leaving as \<open>a\<close> says: if one of its requests was
  rejected for the certificate, the run left with \<^verbatim>\<open>process.exit(5)\<close>, that request was
  its last one, and the run ended with that request followed by the remediation text
  on standard error.
\<close>

definition cert_rejected :: "script \<Rightarrow> nat \<Rightarrow> bool" where
  "cert_rejected srv n = (case srv n of Rejected e \<Rightarrow> is_cert_error e | _ \<Rightarrow> False)"

definition aborted :: "abort + 'a \<Rightarrow> abort option" where
  "aborted r = (case r of Inl a \<Rightarrow> Some a | Inr x \<Rightarrow> None)"

definition fatal_stop :: "script \<Rightarrow> nat \<Rightarrow> abort option \<Rightarrow> 'b world_scheme \<Rightarrow> bool" where
  "fatal_stop srv n0 a w =
     (n0 \<le> sent w \<and>
      (\<forall>n. n0 \<le> n \<and> n < sent w \<and> cert_rejected srv n \<longrightarrow>
         a = Some (Exit 5) \<and> sent w = Suc n \<and>
         (\<exists>evs q v. out w = evs @ [Request q v, Stderr CERT_ERROR_HELP])))"

subsection \<open>The entity map as a directory\<close>

text \<open>
  \<open>wf_map m\<close>: no key occurs twice in the entity map, and the record stored under a key
  carries that key as its \<^verbatim>\<open>guid\<close>. \<open>evidence_of a\<close> are the four fields that report a
  found module (\<^verbatim>\<open>library\<close>, \<^verbatim>\<open>libraryVersion\<close>, \<^verbatim>\<open>librarySha1\<close>, \<^verbatim>\<open>librarySha512\<close>);
  \<open>no_evidence a\<close>: all four are absent. \<open>lookup_modules dat\<close> are the modules that the
  answer to a per-entity lookup lists, over all its instances.
\<close>

definition wf_map :: "(string \<times> app) list \<Rightarrow> bool" where
  "wf_map m = (distinct (map fst m) \<and> (\<forall>kv \<in> set m. guid (snd kv) = Some (fst kv)))"

definition evidence_of :: "app \<Rightarrow> string option \<times> string option \<times> string option \<times> string option" where
  "evidence_of a = (library a, libraryVersion a, librarySha1 a, librarySha512 a)"

definition no_evidence :: "app \<Rightarrow> bool" where
  "no_evidence a = (evidence_of a = (None, None, None, None))"

definition lookup_modules :: "data option \<Rightarrow> module list" where
  "lookup_modules dat =
     (case entity_shape dat of None \<Rightarrow> [] | Some (e, insts) \<Rightarrow> all_modules insts)"

section \<open>Example runs\<close>

text \<open>Concrete worlds, errors and scripts on which the theorems below are run.\<close>

definition w0 :: world where
  "w0 = \<lparr>out = [], sent = 0\<rparr>"

definition err_reset :: jserror where
  "err_reset = \<lparr>err_code = StrCode ''ECONNRESET'', err_toString = ''Error: socket hang up''\<rparr>"

definition err_cert :: jserror where
  "err_cert = \<lparr>err_code = StrCode ''DEPTH_ZERO_SELF_SIGNED_CERT'',
                err_toString = ''Error: self signed certificate''\<rparr>"

definition data_empty :: data where
  "data_empty = \<lparr>dt_actor = None\<rparr>"

text \<open>The first request fails with a reset connection; every later one is answered with
  data and with errors.\<close>

definition srv_retry :: script where
  "srv_retry n =
     (if n = 0 then Rejected err_reset
      else Resolved \<lparr>resp_errors = Some ''[partial failure]'', resp_data = Some data_empty\<rparr>)"

text \<open>Every response has a body that is not JSON, as the error page of a gateway is.\<close>

definition srv_garbled :: script where
  "srv_garbled n = Malformed"

text \<open>The first request fails with a reset connection; the response to the second
  request is not JSON.\<close>

definition srv_reset_then_garbled :: script where
  "srv_reset_then_garbled n = (if n = 0 then Rejected err_reset else Malformed)"

text \<open>Every request is answered with data and with errors.\<close>

definition srv_partial :: script where
  "srv_partial n = Resolved \<lparr>resp_errors = Some ''[partial failure]'', resp_data = Some data_empty\<rparr>"

text \<open>The first response has no \<^verbatim>\<open>data\<close> and no \<^verbatim>\<open>errors\<close>; every later one has both.\<close>

definition srv_empty_then_partial :: script where
  "srv_empty_then_partial n =
     (if n = 0 then Resolved \<lparr>resp_errors = None, resp_data = None\<rparr>
      else Resolved \<lparr>resp_errors = Some ''[partial failure]'', resp_data = Some data_empty\<rparr>)"

text \<open>A directory of one service, and lookup responses for it.\<close>

definition app1 :: app where
  "app1 = \<lparr>accountId = Some 1, applicationId = Some (Num 42), name = Some ''checkout'',
            guid = Some ''g1'', reporting = Some True,
            nrUrl = Some ''https://rpm.newrelic.com/accounts/1/applications/42/environment'',
            agentVersion = None, examinedInstances = None, library = None,
            libraryVersion = None, librarySha1 = None, librarySha512 = None\<rparr>"

definition mod_old :: module where
  "mod_old = \<lparr>mod_name = Some ''log4j-core'', mod_version = Some ''2.14.1'',
               mod_attributes = Some [\<lparr>attr_name = Some ''sha1Checksum'', attr_value = Some ''abc''\<rparr>]\<rparr>"




definition data_of_entity :: "entity \<Rightarrow> data" where
  "data_of_entity e =
     \<lparr>dt_actor = Some \<lparr>act_entitySearch = None, act_entity = Some e, act_account = None\<rparr>\<rparr>"


definition st_one :: state where
  "st_one = \<lparr>out = [], sent = 0, libraryName = ''log4j-core'', region = ''us'', accountIds = [1],
              argv = [''node'', ''nr-find-lib.js''], applications = [(''g1'', app1)],
              scanStarted = 0, scanCompleted = None, scanDurationSec = None,
              clock = 1500, isoTime = ''2021-12-14T10:00:00.000Z''\<rparr>"

definition mod_full :: module where
  "mod_full = \<lparr>mod_name = Some ''log4j-core'', mod_version = Some ''2.17.0'',
                mod_attributes = Some [\<lparr>attr_name = Some ''sha1Checksum'', attr_value = Some ''def''\<rparr>,
                                       \<lparr>attr_name = Some ''sha512Checksum'', attr_value = Some ''xyz''\<rparr>]\<rparr>"

definition insts_full :: "app_instance list" where
  "insts_full = [\<lparr>inst_modules = Some [mod_old, mod_full]\<rparr>, \<lparr>inst_modules = Some []\<rparr>,
                 \<lparr>inst_modules = None\<rparr>]"

definition entity_full :: entity where
  "entity_full = \<lparr>applicationInstances = Some insts_full,
                   runningAgentVersions = Some \<lparr>minVersion = Some ''7.4.0'', maxVersion = Some ''7.4.0''\<rparr>\<rparr>"

definition srv_full :: script where
  "srv_full n = Resolved \<lparr>resp_errors = None, resp_data = Some (data_of_entity entity_full)\<rparr>"

text \<open>A directory of two services; the lookups of the first one fail.\<close>

definition app2 :: app where
  "app2 = \<lparr>accountId = Some 1, applicationId = Some (Num 43), name = Some ''billing'',
            guid = Some ''g2'', reporting = Some True,
            nrUrl = Some ''https://rpm.newrelic.com/accounts/1/applications/43/environment'',
            agentVersion = None, examinedInstances = None, library = None,
            libraryVersion = None, librarySha1 = None, librarySha512 = None\<rparr>"

definition st_two :: state where
  "st_two = \<lparr>out = [], sent = 0, libraryName = ''log4j-core'', region = ''us'', accountIds = [1],
              argv = [''node'', ''nr-find-lib.js''], applications = [(''g1'', app1), (''g2'', app2)],
              scanStarted = 0, scanCompleted = None, scanDurationSec = None,
              clock = 1500, isoTime = ''2021-12-14T10:00:00.000Z''\<rparr>"


text \<open>A lookup response whose only module has an empty name.\<close>

definition mod_blank :: module where
  "mod_blank = \<lparr>mod_name = Some [], mod_version = Some ''1.0'', mod_attributes = None\<rparr>"

definition insts_blank :: "app_instance list" where
  "insts_blank = [\<lparr>inst_modules = Some [mod_blank]\<rparr>]"

definition entity_blank :: entity where
  "entity_blank = \<lparr>applicationInstances = Some insts_blank, runningAgentVersions = None\<rparr>"

definition srv_blank :: script where
  "srv_blank n = Resolved \<lparr>resp_errors = None, resp_data = Some (data_of_entity entity_blank)\<rparr>"

text \<open>A finished scan: the library was found in the first of two services.\<close>

definition app_found :: app where
  "app_found = app1\<lparr>library := Some ''log4j-core'', libraryVersion := Some ''2.17.0''\<rparr>"

definition st_done :: state where
  "st_done = st_two\<lparr>applications := [(''g1'', app_found), (''g2'', app2)]\<rparr>"

text \<open>Two pages of the directory: a guid that comes twice, an entity without guid and
  one with an empty guid.\<close>

definition data_of_page :: "outline list \<Rightarrow> string option \<Rightarrow> data" where
  "data_of_page ents cursor =
     \<lparr>dt_actor = Some \<lparr>act_entitySearch =
         Some \<lparr>es_count = Some 3,
               es_results = Some \<lparr>sr_nextCursor = cursor, sr_entities = Some ents\<rparr>\<rparr>,
         act_entity = None, act_account = None\<rparr>\<rparr>"

definition ol_a :: outline where
  "ol_a = \<lparr>ol_guid = Some ''gA'', ol_name = Some ''checkout'', ol_applicationId = Some 42,
           ol_accountId = Some 1, ol_reporting = Some True\<rparr>"

definition ol_b :: outline where
  "ol_b = \<lparr>ol_guid = Some ''gB'', ol_name = Some ''billing'', ol_applicationId = Some 43,
           ol_accountId = Some 1, ol_reporting = Some True\<rparr>"

definition ol_null :: outline where
  "ol_null = \<lparr>ol_guid = None, ol_name = Some ''ghost'', ol_applicationId = None,
              ol_accountId = Some 1, ol_reporting = Some True\<rparr>"

definition ol_a2 :: outline where
  "ol_a2 = \<lparr>ol_guid = Some ''gA'', ol_name = Some ''checkout-renamed'', ol_applicationId = Some 42,
            ol_accountId = Some 1, ol_reporting = Some True\<rparr>"

definition ol_blank :: outline where
  "ol_blank = \<lparr>ol_guid = Some [], ol_name = Some ''blank'', ol_applicationId = Some 44,
               ol_accountId = Some 1, ol_reporting = Some True\<rparr>"

definition srv_pages :: script where
  "srv_pages n =
     (if n = 0
      then Resolved \<lparr>resp_errors = None,
                     resp_data = Some (data_of_page [ol_a, ol_b, ol_null] (Some ''c1''))\<rparr>
      else Resolved \<lparr>resp_errors = None, resp_data = Some (data_of_page [ol_a2, ol_blank] None)\<rparr>)"

definition st_init :: state where
  "st_init = \<lparr>out = [], sent = 0, libraryName = ''log4j-core'', region = ''us'', accountIds = [1],
               argv = [''node'', ''nr-find-lib.js''], applications = [],
               scanStarted = 0, scanCompleted = None, scanDurationSec = None,
               clock = 1500, isoTime = ''2021-12-14T10:00:00.000Z''\<rparr>"

text \<open>The properties of a record that the synthesis fixes.\<close>

definition identity_of :: "app \<Rightarrow> int option \<times> string option \<times> string option \<times> jsnum option \<times> string option" where
  "identity_of a = (accountId a, guid a, name a, applicationId a, nrUrl a)"

text \<open>
  An \<^verbatim>\<open>atob\<close> to run the model with: the forgiving-base64 decoding that the platform
  function performs (white space is dropped, padding is optional, a character outside
  the alphabet or a length of 1 modulo 4 is an error).
\<close>

definition b64_val :: "char \<Rightarrow> nat option" where
  "b64_val c =
     (let n = (of_char c :: nat) in
      if 65 \<le> n \<and> n \<le> 90 then Some (n - 65)
      else if 97 \<le> n \<and> n \<le> 122 then Some (n - 71)
      else if 48 \<le> n \<and> n \<le> 57 then Some (n + 4)
      else if n = 43 then Some 62
      else if n = 47 then Some 63
      else None)"

fun b64_bytes :: "nat list \<Rightarrow> string" where
  "b64_bytes (a # b # c # d # rest) =
     char_of (a * 4 + b div 16) # char_of ((b mod 16) * 16 + c div 4) #
     char_of ((c mod 4) * 64 + d) # b64_bytes rest"
| "b64_bytes [a, b, c] = [char_of (a * 4 + b div 16), char_of ((b mod 16) * 16 + c div 4)]"
| "b64_bytes [a, b] = [char_of (a * 4 + b div 16)]"
| "b64_bytes [a] = []"
| "b64_bytes [] = []"

definition atob_std :: atob where
  "atob_std s =
     (let d = filter (\<lambda>c. (of_char c :: nat) \<notin> {9, 10, 12, 13, 32}) s;
          d1 = (if length d mod 4 = 0 \<and> d \<noteq> [] \<and> last d = CHR ''=''
                then (if butlast d \<noteq> [] \<and> last (butlast d) = CHR ''=''
                      then butlast (butlast d) else butlast d)
                else d)
      in if length d1 mod 4 = 1 \<or> (\<exists>c \<in> set d1. b64_val c = None) then None
         else Some (b64_bytes (map (\<lambda>c. the (b64_val c)) d1)))"

text \<open>The entity map holds \<open>g\<close> once, with a record that has the identity of the
  synthesized one.\<close>

definition fresh_record :: "atob \<Rightarrow> int \<Rightarrow> string \<Rightarrow> string \<Rightarrow> (string \<times> app) list \<Rightarrow> bool" where
  "fresh_record atob accId appName g apps =
     (count_list (map fst apps) g = 1 \<and>
      (case map_of apps g of
         None \<Rightarrow> False
       | Some r \<Rightarrow> identity_of r = identity_of (synthesized atob accId appName g)))"

text \<open>A module result of an account that names two guids the directory does not hold:
  one that decodes to \<^verbatim>\<open>1|APM|APPLICATION|42\<close>, one that is not base64.\<close>

definition result_new :: module_result where
  "result_new =
     \<lparr>mr_details = Some \<lparr>det_name = Some ''java:myhost:8080'', det_host = Some ''myhost''\<rparr>,
      mr_loadedModules = Some [mod_old, mod_full],
      mr_applicationGuids = Some [''MXxBUE18QVBQTElDQVRJT058NDI'', ''not base64!'']\<rparr>"

text \<open>A module result that lists one guid, the encoding of \<^verbatim>\<open>1|APM|APPLICATION\<close>: three
  fields, and no application id.\<close>

definition result_short :: module_result where
  "result_short =
     \<lparr>mr_details = Some \<lparr>det_name = Some ''java:myhost:8080'', det_host = Some ''myhost''\<rparr>,
      mr_loadedModules = Some [mod_full],
      mr_applicationGuids = Some [''MXxBUE18QVBQTElDQVRJT04='']\<rparr>"

text \<open>The first lookup is answered; every later request is rejected for the certificate.\<close>

definition srv_ok_then_cert :: script where
  "srv_ok_then_cert n =
     (if n = 0 then Resolved \<lparr>resp_errors = None, resp_data = Some (data_of_entity entity_full)\<rparr>
      else Rejected err_cert)"

text \<open>A lookup response for a service whose only instance has loaded no matching module.\<close>

definition entity_idle :: entity where
  "entity_idle = \<lparr>applicationInstances = Some [\<lparr>inst_modules = Some []\<rparr>],
                   runningAgentVersions = Some \<lparr>minVersion = Some ''7.4.0'', maxVersion = Some ''7.4.0''\<rparr>\<rparr>"

definition srv_idle :: script where
  "srv_idle n = Resolved \<lparr>resp_errors = None, resp_data = Some (data_of_entity entity_idle)\<rparr>"

text \<open>An account-wide response of one page, and a server that always sends it.\<close>

definition data_of_modules :: "module_result list \<Rightarrow> string option \<Rightarrow> data" where
  "data_of_modules rs cursor =
     \<lparr>dt_actor = Some \<lparr>act_entitySearch = None, act_entity = None,
         act_account = Some \<lparr>acc_agentEnvironment =
           Some \<lparr>ae_modules = Some \<lparr>em_nextCursor = cursor, em_results = Some rs\<rparr>\<rparr>\<rparr>\<rparr>\<rparr>"

definition srv_account :: script where
  "srv_account n = Resolved \<lparr>resp_errors = None, resp_data = Some (data_of_modules [result_new] None)\<rparr>"

section \<open>Properties\<close>

subsection \<open>Transport\<close>

lemma requests_append [simp]: "requests (xs @ ys) = requests xs @ requests ys"
  by (induction xs rule: requests.induct) auto

lemma stderr_of_append [simp]: "stderr_of (xs @ ys) = stderr_of xs @ stderr_of ys"
  by (induction xs rule: stderr_of.induct) auto

lemma handleNetworkError_cert:
  "is_cert_error e \<Longrightarrow> handleNetworkError e w = (Inl (Exit 5), stderr_write CERT_ERROR_HELP w)"
  by (simp add: handleNetworkError_def is_cert_error_def)

lemma handleNetworkError_other:
  "\<not> is_cert_error e \<Longrightarrow>
   handleNetworkError e w =
     (Inr (), stderr_write (''\<newline>Exception processing API call: '' @ err_toString e @ ''\<newline>'') w)"
  by (simp add: handleNetworkError_def is_cert_error_def)

lemma second_try_sent: "sent (snd (second_try srv q vars w)) = Suc (sent w)"
  by (auto simp: second_try_def buildRequestPromise_def handleNetworkError_def stderr_write_def
      Let_def split: outcome.splits)

lemma second_try_requests:
  "requests (out (snd (second_try srv q vars w))) = requests (out w) @ [(q, vars)]"
  by (auto simp: second_try_def buildRequestPromise_def handleNetworkError_def stderr_write_def
      Let_def split: outcome.splits)

lemma second_try_no_throw: "fst (second_try srv q vars w) \<noteq> Inl (Throw x)"
  by (auto simp: second_try_def buildRequestPromise_def handleNetworkError_def
      Let_def split: outcome.splits)

lemma first_try_sent: "sent (snd (first_try srv q vars w)) = Suc (sent w)"
  by (auto simp: first_try_def buildRequestPromise_def handleNetworkError_def stderr_write_def
      Let_def split: outcome.splits option.splits)

lemma first_try_requests:
  "requests (out (snd (first_try srv q vars w))) = requests (out w) @ [(q, vars)]"
  by (auto simp: first_try_def buildRequestPromise_def handleNetworkError_def stderr_write_def
      Let_def split: outcome.splits option.splits)

lemma first_try_no_throw: "fst (first_try srv q vars w) \<noteq> Inl (Throw x)"
  by (auto simp: first_try_def buildRequestPromise_def handleNetworkError_def
      Let_def split: outcome.splits option.splits)

lemma nerdgraphQuery_no_throw: "fst (nerdgraphQuery srv q vars w) \<noteq> Inl (Throw x)"
proof (cases "first_try srv q vars w")
  case (Pair r1 w1)
  note ft = this
  show ?thesis
  proof (cases "second_try srv q vars w1")
    case (Pair r2 w2)
    with ft first_try_no_throw [of srv q vars w x] second_try_no_throw [of srv q vars w1 x]
    show ?thesis
      by (auto simp: nerdgraphQuery_def split: sum.splits option.splits)
  qed
qed

lemma nerdgraphQuery_sent_le: "sent (snd (nerdgraphQuery srv q vars w)) \<le> sent w + 2"
proof (cases "first_try srv q vars w")
  case (Pair r1 w1)
  note ft = this
  show ?thesis
  proof (cases "second_try srv q vars w1")
    case (Pair r2 w2)
    with ft first_try_sent [of srv q vars w] second_try_sent [of srv q vars w1]
    show ?thesis
      by (auto simp: nerdgraphQuery_def split: sum.splits option.splits)
  qed
qed

lemma first_try_rejected:
  assumes "srv (sent w) = Rejected e" and "\<not> is_cert_error e"
  shows "first_try srv q vars w =
           (Inr None,
            stderr_write (''\<newline>Exception processing API call: '' @ err_toString e @ ''\<newline>'')
              (w\<lparr>out := out w @ [Request q vars], sent := Suc (sent w)\<rparr>))"
  using assms by (simp add: first_try_def buildRequestPromise_def handleNetworkError_other)

lemma nerdgraphQuery_after_failure:
  assumes "srv (sent w) = Rejected e" and "\<not> is_cert_error e"
  shows "nerdgraphQuery srv q vars w =
           second_try srv q vars
             (stderr_write (''\<newline>Exception processing API call: '' @ err_toString e @ ''\<newline>'')
                (w\<lparr>out := out w @ [Request q vars], sent := Suc (sent w)\<rparr>))"
  using assms by (simp add: nerdgraphQuery_def first_try_rejected
      split: prod.splits sum.splits option.splits)

lemma nerdgraphQuery_first_data:
  assumes "srv (sent w) = Resolved r" and "resp_data r = Some d"
  shows "fst (nerdgraphQuery srv q vars w) = Inr (Some d)"
  using assms by (simp add: nerdgraphQuery_def first_try_def buildRequestPromise_def Let_def)

text \<open>
  Rejected requests are retried once. When the first attempt is rejected with an error
  that is not of the certificate class, the same request is sent once more: data of the
  second response is returned as it would have been without the first failure, and a
  second failure (no data, or another such rejection) gives \<^verbatim>\<open>undefined\<close>. In every
  case at most two requests are sent and no exception leaves the call.
\<close>

lemma nerdgraphQuery_retries_rejection:
  "sent (snd (nerdgraphQuery srv q vars w)) \<le> sent w + 2 \<and>
   (\<forall>x. fst (nerdgraphQuery srv q vars w) \<noteq> Inl (Throw x)) \<and>
   (srv (sent w) = Rejected e1 \<and> \<not> is_cert_error e1 \<longrightarrow>
      requests (out (snd (nerdgraphQuery srv q vars w))) = requests (out w) @ [(q, vars), (q, vars)] \<and>
      (\<forall>r d. srv (Suc (sent w)) = Resolved r \<and> resp_data r = Some d \<longrightarrow>
         fst (nerdgraphQuery srv q vars w) = Inr (Some d) \<and>
         fst (nerdgraphQuery srv q vars w) = fst (nerdgraphQuery (\<lambda>n. srv (Suc n)) q vars w)) \<and>
      (\<forall>r. srv (Suc (sent w)) = Resolved r \<and> resp_data r = None \<longrightarrow>
         fst (nerdgraphQuery srv q vars w) = Inr None) \<and>
      (\<forall>e2. srv (Suc (sent w)) = Rejected e2 \<and> \<not> is_cert_error e2 \<longrightarrow>
         fst (nerdgraphQuery srv q vars w) = Inr None))"
proof (intro conjI impI allI)
  show "sent (snd (nerdgraphQuery srv q vars w)) \<le> sent w + 2"
    by (rule nerdgraphQuery_sent_le)
next
  fix x show "fst (nerdgraphQuery srv q vars w) \<noteq> Inl (Throw x)"
    by (rule nerdgraphQuery_no_throw)
next
  assume a: "srv (sent w) = Rejected e1 \<and> \<not> is_cert_error e1"
  then have eq: "nerdgraphQuery srv q vars w =
           second_try srv q vars
             (stderr_write (''\<newline>Exception processing API call: '' @ err_toString e1 @ ''\<newline>'')
                (w\<lparr>out := out w @ [Request q vars], sent := Suc (sent w)\<rparr>))"
    by (simp add: nerdgraphQuery_after_failure)
  show "requests (out (snd (nerdgraphQuery srv q vars w))) = requests (out w) @ [(q, vars), (q, vars)]"
    by (simp add: eq second_try_requests stderr_write_def)
  {
    fix r d assume b: "srv (Suc (sent w)) = Resolved r \<and> resp_data r = Some d"
    then show "fst (nerdgraphQuery srv q vars w) = Inr (Some d)"
      by (simp add: eq second_try_def buildRequestPromise_def stderr_write_def)
    with b show "fst (nerdgraphQuery srv q vars w) = fst (nerdgraphQuery (\<lambda>n. srv (Suc n)) q vars w)"
      by (simp add: nerdgraphQuery_first_data [of "\<lambda>n. srv (Suc n)" w r d])
  }
  {
    fix r assume "srv (Suc (sent w)) = Resolved r \<and> resp_data r = None"
    then show "fst (nerdgraphQuery srv q vars w) = Inr None"
      by (simp add: eq second_try_def buildRequestPromise_def stderr_write_def)
  }
  {
    fix e2 assume "srv (Suc (sent w)) = Rejected e2 \<and> \<not> is_cert_error e2"
    then show "fst (nerdgraphQuery srv q vars w) = Inr None"
      by (simp add: eq second_try_def buildRequestPromise_def stderr_write_def
          handleNetworkError_other)
  }
qed

lemma err_reset_not_cert: "\<not> is_cert_error err_reset"
  by (simp add: is_cert_error_def err_reset_def)

lemma nerdgraphQuery_retries_rejection_example:
  "srv_retry (sent w0) = Rejected err_reset \<and> \<not> is_cert_error err_reset \<and>
   fst (nerdgraphQuery srv_retry getServices [] w0) = Inr (Some data_empty) \<and>
   requests (out (snd (nerdgraphQuery srv_retry getServices [] w0))) =
     [(getServices, []), (getServices, [])]"
  using nerdgraphQuery_retries_rejection [of srv_retry getServices "[]" w0 err_reset]
  by (simp add: err_reset_not_cert srv_retry_def w0_def)

lemma nerdgraphQuery_malformed:
  assumes "srv (sent w) = Malformed"
  shows "nerdgraphQuery srv q vars w =
           (Inl (Exit 1), w\<lparr>out := out w @ [Request q vars], sent := Suc (sent w)\<rparr>)"
  using assms by (simp add: nerdgraphQuery_def first_try_def buildRequestPromise_def)

lemma second_try_malformed:
  assumes "srv (sent w) = Malformed"
  shows "second_try srv q vars w =
           (Inl (Exit 1), w\<lparr>out := out w @ [Request q vars], sent := Suc (sent w)\<rparr>)"
  using assms by (simp add: second_try_def buildRequestPromise_def)

text \<open>
  C2. The retry covers rejected requests only (lemma \<open>nerdgraphQuery_retries_rejection\<close>).
  A response whose body is not JSON is the case the source misses: \<^verbatim>\<open>JSON.parse\<close>
  throws in the listener of \<^verbatim>\<open>end\<close>, outside the promise and both \<^verbatim>\<open>try\<close> blocks, so
  the call neither retries nor returns \<^verbatim>\<open>undefined\<close>: after that one request, with
  nothing written, the process ends with status 1. The same holds when the body of
  the retry itself is not JSON.
\<close>

theorem malformed_body_ends_process:
  "(srv (sent w) = Malformed \<longrightarrow>
      nerdgraphQuery srv q vars w =
        (Inl (Exit 1), w\<lparr>out := out w @ [Request q vars], sent := Suc (sent w)\<rparr>)) \<and>
   (\<forall>e. srv (sent w) = Rejected e \<and> \<not> is_cert_error e \<and> srv (Suc (sent w)) = Malformed \<longrightarrow>
      fst (nerdgraphQuery srv q vars w) = Inl (Exit 1) \<and>
      requests (out (snd (nerdgraphQuery srv q vars w))) =
        requests (out w) @ [(q, vars), (q, vars)])"
proof (intro conjI impI allI)
  assume "srv (sent w) = Malformed"
  then show "nerdgraphQuery srv q vars w =
        (Inl (Exit 1), w\<lparr>out := out w @ [Request q vars], sent := Suc (sent w)\<rparr>)"
    by (rule nerdgraphQuery_malformed)
next
  fix e
  assume a: "srv (sent w) = Rejected e \<and> \<not> is_cert_error e \<and> srv (Suc (sent w)) = Malformed"
  let ?w1 = "stderr_write (''\<newline>Exception processing API call: '' @ err_toString e @ ''\<newline>'')
                (w\<lparr>out := out w @ [Request q vars], sent := Suc (sent w)\<rparr>)"
  from a have eq: "nerdgraphQuery srv q vars w = second_try srv q vars ?w1"
    by (simp add: nerdgraphQuery_after_failure)
  from a have m: "srv (sent ?w1) = Malformed"
    by (simp add: stderr_write_def)
  show "fst (nerdgraphQuery srv q vars w) = Inl (Exit 1)"
    using m by (simp add: eq second_try_malformed)
  show "requests (out (snd (nerdgraphQuery srv q vars w))) =
        requests (out w) @ [(q, vars), (q, vars)]"
    by (simp add: eq second_try_requests stderr_write_def)
qed

theorem malformed_body_ends_process_witness:
  "nerdgraphQuery srv_garbled getServices [] w0 =
     (Inl (Exit 1), \<lparr>out = [Request getServices []], sent = 1\<rparr>) \<and>
   fst (nerdgraphQuery srv_reset_then_garbled getServices [] w0) = Inl (Exit 1) \<and>
   requests (out (snd (nerdgraphQuery srv_reset_then_garbled getServices [] w0))) =
     [(getServices, []), (getServices, [])]"
  using malformed_body_ends_process [of srv_garbled w0 getServices "[]"]
        malformed_body_ends_process [of srv_reset_then_garbled w0 getServices "[]"]
  by (simp add: srv_garbled_def srv_reset_then_garbled_def w0_def err_reset_not_cert)

lemma nerdgraphQuery_no_data_retries:
  assumes "srv (sent w) = Resolved r" and "resp_data r = None"
  shows "requests (out (snd (nerdgraphQuery srv q vars w))) = requests (out w) @ [(q, vars), (q, vars)]"
    and "sent (snd (nerdgraphQuery srv q vars w)) = sent w + 2"
proof -
  obtain w1 where ft: "first_try srv q vars w = (Inr None, w1)"
    using assms by (simp add: first_try_def buildRequestPromise_def Let_def)
  have r1: "requests (out w1) = requests (out w) @ [(q, vars)]"
    using first_try_requests [of srv q vars w] ft by simp
  have s1: "sent w1 = Suc (sent w)"
    using first_try_sent [of srv q vars w] ft by simp
  have nq: "snd (nerdgraphQuery srv q vars w) = snd (second_try srv q vars w1)"
    using ft by (simp add: nerdgraphQuery_def split: prod.splits sum.splits option.splits)
  show "requests (out (snd (nerdgraphQuery srv q vars w))) = requests (out w) @ [(q, vars), (q, vars)]"
    by (simp add: nq second_try_requests r1)
  show "sent (snd (nerdgraphQuery srv q vars w)) = sent w + 2"
    by (simp add: nq second_try_sent s1)
qed

lemma nerdgraphQuery_first_partial:
  assumes "srv (sent w) = Resolved r" and "resp_errors r = Some e" and "resp_data r = Some d"
  shows "nerdgraphQuery srv q vars w =
           (Inr (Some d),
            w\<lparr>out := out w @ [Request q vars, Stderr (''\<newline>Error returned from API: '' @ e @ ''\<newline>'')],
              sent := Suc (sent w)\<rparr>)"
  using assms
  by (simp add: nerdgraphQuery_def first_try_def buildRequestPromise_def stderr_write_def Let_def)

text \<open>
  C10. A first response without data is followed by the second request (lemma
  \<open>nerdgraphQuery_no_data_retries\<close>), and errors that come with data in the first
  response are written to standard error (lemma \<open>nerdgraphQuery_first_partial\<close>). The
  run below is the case the source misses: the first response carries nothing, the
  second carries errors and data; the data is returned, and nothing at all is written
  to standard error. The same response as the first one of a call is reported.
\<close>

theorem retry_response_errors_not_logged:
  "nerdgraphQuery srv_empty_then_partial getServices [] w0 =
     (Inr (Some data_empty), \<lparr>out = [Request getServices [], Request getServices []], sent = 2\<rparr>) \<and>
   stderr_of (out (snd (nerdgraphQuery srv_empty_then_partial getServices [] w0))) = [] \<and>
   stderr_of (out (snd (nerdgraphQuery srv_partial getServices [] w0))) =
     [''\<newline>Error returned from API: [partial failure]\<newline>'']"
  by (simp add: nerdgraphQuery_def first_try_def second_try_def buildRequestPromise_def
      srv_empty_then_partial_def srv_partial_def w0_def stderr_write_def Let_def)

subsection \<open>The per-entity merge\<close>

lemma or_else_idem [simp]: "or_else n (or_else n x) = or_else n x"
  by (simp add: or_else_def split: option.splits)

lemma or_else_None [simp]: "or_else None x = x"
  by (simp add: or_else_def)

lemma attr_checksum_Nil [simp]: "attr_checksum nm [] = None"
  by (simp add: attr_checksum_def)

lemma attr_checksum_snoc:
  "attr_checksum nm (ats @ [at]) =
     (if attr_name at = Some nm \<and> truthy (attr_value at) then attr_value at
      else attr_checksum nm ats)"
  by (cases "filter (\<lambda>at. attr_name at = Some nm \<and> truthy (attr_value at)) ats")
     (auto simp: attr_checksum_def)

lemma truthy_Some: "truthy v \<Longrightarrow> \<exists>s. v = Some s"
  by (cases v) auto

lemma attr_checksum_single:
  "attr_checksum nm [at] =
     (if attr_name at = Some nm \<and> truthy (attr_value at) then attr_value at else None)"
  by (simp add: attr_checksum_def)

lemma apply_attribute_eq:
  "apply_attribute a at =
     a\<lparr>librarySha1 := or_else (attr_checksum ''sha1Checksum'' [at]) (librarySha1 a),
       librarySha512 := or_else (attr_checksum ''sha512Checksum'' [at]) (librarySha512 a)\<rparr>"
proof (cases "truthy (attr_value at)")
  case False
  then show ?thesis
    by (simp add: apply_attribute_def attr_checksum_single Let_def)
next
  case True
  then obtain s where s: "attr_value at = Some s" "s \<noteq> []"
    by (cases "attr_value at") auto
  show ?thesis
  proof (cases "attr_name at = Some ''sha1Checksum''")
    case True
    with s show ?thesis
      by (simp add: apply_attribute_def attr_checksum_single Let_def or_else_def)
  next
    case False
    note n1 = this
    show ?thesis
    proof (cases "attr_name at = Some ''sha512Checksum''")
      case True
      with s show ?thesis
        by (simp add: apply_attribute_def attr_checksum_single Let_def or_else_def)
    next
      case False
      with s n1 show ?thesis
        by (simp add: apply_attribute_def attr_checksum_single Let_def)
    qed
  qed
qed

lemma attr_checksum_snoc_or:
  "attr_checksum nm (ats @ [at]) = or_else (attr_checksum nm [at]) (attr_checksum nm ats)"
proof (cases "attr_name at = Some nm \<and> truthy (attr_value at)")
  case True
  then obtain s where "attr_value at = Some s" by (cases "attr_value at") auto
  with True show ?thesis
    by (simp add: attr_checksum_snoc attr_checksum_single or_else_def)
next
  case False
  then show ?thesis
    by (auto simp: attr_checksum_snoc attr_checksum_single)
qed

lemma or_else_assoc: "or_else a (or_else b x) = or_else (or_else a b) x"
  by (simp add: or_else_def split: option.splits)

lemma foldl_apply_attribute:
  "foldl apply_attribute a ats =
     a\<lparr>librarySha1 := or_else (attr_checksum ''sha1Checksum'' ats) (librarySha1 a),
       librarySha512 := or_else (attr_checksum ''sha512Checksum'' ats) (librarySha512 a)\<rparr>"
proof (induction ats rule: rev_induct)
  case Nil
  show ?case by simp
next
  case (snoc at ats)
  have "foldl apply_attribute a (ats @ [at]) = apply_attribute (foldl apply_attribute a ats) at"
    by simp
  also have "\<dots> = apply_attribute (a\<lparr>librarySha1 := or_else (attr_checksum ''sha1Checksum'' ats) (librarySha1 a),
       librarySha512 := or_else (attr_checksum ''sha512Checksum'' ats) (librarySha512 a)\<rparr>) at"
    by (simp only: snoc)
  also have "\<dots> = a\<lparr>librarySha1 := or_else (attr_checksum ''sha1Checksum'' (ats @ [at])) (librarySha1 a),
       librarySha512 := or_else (attr_checksum ''sha512Checksum'' (ats @ [at])) (librarySha512 a)\<rparr>"
    by (simp add: apply_attribute_eq attr_checksum_snoc_or or_else_assoc)
  finally show ?case .
qed

lemma apply_module_eq:
  "apply_module a m =
     a\<lparr>library := mod_name m, libraryVersion := mod_version m,
       librarySha1 := or_else (module_checksum ''sha1Checksum'' m) (librarySha1 a),
       librarySha512 := or_else (module_checksum ''sha512Checksum'' m) (librarySha512 a)\<rparr>"
proof (cases "mod_attributes m")
  case None
  then show ?thesis
    by (simp add: apply_module_def module_checksum_def Let_def)
next
  case (Some ats)
  then show ?thesis
    by (simp add: apply_module_def module_checksum_def foldl_apply_attribute Let_def)
qed

lemma modules_checksum_Nil [simp]: "modules_checksum nm [] = None"
  by (simp add: modules_checksum_def)

lemma modules_checksum_snoc:
  "modules_checksum nm (ms @ [m]) = or_else (module_checksum nm m) (modules_checksum nm ms)"
  by (cases "filter (\<lambda>m. module_checksum nm m \<noteq> None) ms")
     (auto simp: modules_checksum_def or_else_def split: option.splits)

lemma foldl_apply_module:
  "foldl apply_module a ms =
     a\<lparr>library := (if ms = [] then library a else mod_name (last ms)),
       libraryVersion := (if ms = [] then libraryVersion a else mod_version (last ms)),
       librarySha1 := or_else (modules_checksum ''sha1Checksum'' ms) (librarySha1 a),
       librarySha512 := or_else (modules_checksum ''sha512Checksum'' ms) (librarySha512 a)\<rparr>"
proof (induction ms rule: rev_induct)
  case Nil
  show ?case by simp
next
  case (snoc m ms)
  have "foldl apply_module a (ms @ [m]) = apply_module (foldl apply_module a ms) m"
    by simp
  also have "\<dots> = apply_module (a\<lparr>library := (if ms = [] then library a else mod_name (last ms)),
       libraryVersion := (if ms = [] then libraryVersion a else mod_version (last ms)),
       librarySha1 := or_else (modules_checksum ''sha1Checksum'' ms) (librarySha1 a),
       librarySha512 := or_else (modules_checksum ''sha512Checksum'' ms) (librarySha512 a)\<rparr>) m"
    by (simp only: snoc)
  also have "\<dots> = a\<lparr>library := (if ms @ [m] = [] then library a else mod_name (last (ms @ [m]))),
       libraryVersion := (if ms @ [m] = [] then libraryVersion a else mod_version (last (ms @ [m]))),
       librarySha1 := or_else (modules_checksum ''sha1Checksum'' (ms @ [m])) (librarySha1 a),
       librarySha512 := or_else (modules_checksum ''sha512Checksum'' (ms @ [m])) (librarySha512 a)\<rparr>"
    by (simp add: apply_module_eq modules_checksum_snoc or_else_assoc)
  finally show ?case .
qed

lemma apply_instance_eq:
  "apply_instance (a, c) i =
     (foldl apply_module a (all_modules [i]), c + length (reporting_instances [i]))"
  by (simp add: apply_instance_def all_modules_def reporting_instances_def split: option.splits)

lemma all_modules_append: "all_modules (xs @ ys) = all_modules xs @ all_modules ys"
  by (simp add: all_modules_def)

lemma reporting_instances_append:
  "reporting_instances (xs @ ys) = reporting_instances xs @ reporting_instances ys"
  by (simp add: reporting_instances_def)

lemma foldl_apply_instance:
  "foldl apply_instance (a, c) insts =
     (foldl apply_module a (all_modules insts), c + length (reporting_instances insts))"
proof (induction insts rule: rev_induct)
  case Nil
  show ?case by (simp add: all_modules_def reporting_instances_def)
next
  case (snoc i insts)
  have "foldl apply_instance (a, c) (insts @ [i]) =
          apply_instance (foldl apply_instance (a, c) insts) i"
    by simp
  also have "\<dots> = apply_instance
      (foldl apply_module a (all_modules insts), c + length (reporting_instances insts)) i"
    by (simp only: snoc)
  also have "\<dots> = (foldl apply_module a (all_modules (insts @ [i])),
                    c + length (reporting_instances (insts @ [i])))"
    by (simp add: apply_instance_eq all_modules_append reporting_instances_append)
  finally show ?case .
qed

lemma merge_entity_eq:
  "merge_entity e insts a =
     a\<lparr>agentVersion :=
         (case runningAgentVersions e of
            None \<Rightarrow> agentVersion a
          | Some v \<Rightarrow> Some (concatNoneOrMore [minVersion v, maxVersion v])),
       examinedInstances := Some (length (reporting_instances insts)),
       library := (if all_modules insts = [] then library a else mod_name (last (all_modules insts))),
       libraryVersion :=
         (if all_modules insts = [] then libraryVersion a else mod_version (last (all_modules insts))),
       librarySha1 := or_else (modules_checksum ''sha1Checksum'' (all_modules insts)) (librarySha1 a),
       librarySha512 :=
         or_else (modules_checksum ''sha512Checksum'' (all_modules insts)) (librarySha512 a)\<rparr>"
proof (cases "runningAgentVersions e")
  case None
  then show ?thesis
    by (simp add: merge_entity_def Let_def foldl_apply_instance foldl_apply_module)
next
  case (Some v)
  then show ?thesis
    by (simp add: merge_entity_def Let_def foldl_apply_instance foldl_apply_module)
qed

lemma merge_entity_idem: "merge_entity e insts (merge_entity e insts a) = merge_entity e insts a"
proof (cases "runningAgentVersions e")
  case None
  then show ?thesis by (simp add: merge_entity_eq)
next
  case (Some v)
  then show ?thesis by (simp add: merge_entity_eq)
qed

lemma upd_at_idem:
  assumes "\<And>a. f (f a) = f a"
  shows "upd_at k f (upd_at k f m) = upd_at k f m"
  using assms by (induction m) (auto simp: upd_at_def)

lemma apply_module_idem: "apply_module (apply_module a mo) mo = apply_module a mo"
  by (simp add: apply_module_eq)

text \<open>
  C9. Merging the evidence of one lookup response into a record twice gives the record
  that merging it once gives: on the record, on the entity map, and for the body of
  the loop over modules.
\<close>

theorem merge_idempotent:
  "merge_entity e insts (merge_entity e insts a) = merge_entity e insts a \<and>
   upd_at k (merge_entity e insts) (upd_at k (merge_entity e insts) m) =
     upd_at k (merge_entity e insts) m \<and>
   apply_module (apply_module a mo) mo = apply_module a mo"
proof (intro conjI)
  show "merge_entity e insts (merge_entity e insts a) = merge_entity e insts a"
    by (rule merge_entity_idem)
  show "upd_at k (merge_entity e insts) (upd_at k (merge_entity e insts) m) =
          upd_at k (merge_entity e insts) m"
    by (rule upd_at_idem) (rule merge_entity_idem)
  show "apply_module (apply_module a mo) mo = apply_module a mo"
    by (rule apply_module_idem)
qed

subsection \<open>The per-entity enricher\<close>

lemma first_try_state:
  "applications (snd (first_try srv q vars st)) = applications st \<and>
   libraryName (snd (first_try srv q vars st)) = libraryName st \<and>
   accountIds (snd (first_try srv q vars st)) = accountIds st \<and>
   argv (snd (first_try srv q vars st)) = argv st"
  by (auto simp: first_try_def buildRequestPromise_def handleNetworkError_def stderr_write_def
      Let_def split: outcome.splits option.splits)

lemma second_try_state:
  "applications (snd (second_try srv q vars st)) = applications st \<and>
   libraryName (snd (second_try srv q vars st)) = libraryName st \<and>
   accountIds (snd (second_try srv q vars st)) = accountIds st \<and>
   argv (snd (second_try srv q vars st)) = argv st"
  by (auto simp: second_try_def buildRequestPromise_def handleNetworkError_def stderr_write_def
      Let_def split: outcome.splits option.splits)

lemma nerdgraphQuery_state:
  "applications (snd (nerdgraphQuery srv q vars st)) = applications st \<and>
   libraryName (snd (nerdgraphQuery srv q vars st)) = libraryName st \<and>
   accountIds (snd (nerdgraphQuery srv q vars st)) = accountIds st \<and>
   argv (snd (nerdgraphQuery srv q vars st)) = argv st"
proof (cases "first_try srv q vars st")
  case (Pair r1 w1)
  note ft = this
  show ?thesis
  proof (cases "second_try srv q vars w1")
    case (Pair r2 w2)
    with ft first_try_state [of srv q vars st] second_try_state [of srv q vars w1]
    show ?thesis
      by (auto simp: nerdgraphQuery_def split: sum.splits option.splits)
  qed
qed

lemma nerdgraphQuery_abort:
  "fst (nerdgraphQuery srv q vars w) = Inl a \<Longrightarrow> a = Exit 5 \<or> a = Exit 1"
  by (auto simp: nerdgraphQuery_def first_try_def second_try_def buildRequestPromise_def
      handleNetworkError_def Let_def
      split: outcome.splits option.splits prod.splits sum.splits if_splits)

lemma nerdgraphQuery_exits: "fst (nerdgraphQuery srv q vars w) = Inl a \<Longrightarrow> \<exists>c. a = Exit c"
  using nerdgraphQuery_abort [of srv q vars w a] by auto

lemma map_of_upd_at: "map_of (upd_at k f m) k' = (if k' = k then map_option f (map_of m k) else map_of m k')"
  by (induction m) (auto simp: upd_at_def)

lemma keys_upd_at [simp]: "map fst (upd_at k f m) = map fst m"
  by (induction m) (auto simp: upd_at_def)




















subsection \<open>The reporter\<close>

lemma files_of_append [simp]: "files_of (xs @ ys) = files_of xs @ files_of ys"
  by (induction xs rule: files_of.induct) auto

lemma mset_Object_entries: "mset (Object_entries m) = mset m"
  by (simp add: Object_entries_def)

lemma mset_Object_values: "mset (Object_values m) = mset (map snd m)"
  by (simp add: Object_values_def mset_Object_entries)

lemma set_Object_entries [simp]: "set (Object_entries m) = set m"
  by (auto simp: Object_entries_def)

lemma length_Object_values [simp]: "length (Object_values m) = length m"
  using mset_Object_values [of m] by (metis length_map size_mset)

lemma writeResults_state:
  "applications (writeResults st) = applications st \<and> sent (writeResults st) = sent st \<and>
   requests (out (writeResults st)) = requests (out st) \<and>
   stderr_of (out (writeResults st)) = stderr_of (out st)"
  by (simp add: writeResults_def Let_def stdout_write_def fs_writeFileSync_def)

lemma writeResults_files:
  "\<exists>names. names \<noteq> [] \<and>
     files_of (out (writeResults st)) =
       files_of (out st) @
       map (\<lambda>f. (f, reported (''--all-services'' \<in> set (argv st)) (applications st))) names"
proof (cases "''--json'' \<in> set (argv st)")
  case True
  note j = this
  show ?thesis
  proof (cases "''--csv'' \<in> set (argv st)")
    case True
    let ?base = "libraryName st @ ''_scan_'' @ region st @ ''_'' @
                 map (\<lambda>c. if c = CHR '':'' then CHR ''-'' else c) (isoTime st)"
    from j True show ?thesis
      by (intro exI [of _ "[?base @ ''.json'', ?base @ ''.csv'']"])
         (simp add: writeResults_def Let_def stdout_write_def fs_writeFileSync_def)
  next
    case False
    let ?base = "libraryName st @ ''_scan_'' @ region st @ ''_'' @
                 map (\<lambda>c. if c = CHR '':'' then CHR ''-'' else c) (isoTime st)"
    from j False show ?thesis
      by (intro exI [of _ "[?base @ ''.json'']"])
         (simp add: writeResults_def Let_def stdout_write_def fs_writeFileSync_def)
  qed
next
  case False
  let ?base = "libraryName st @ ''_scan_'' @ region st @ ''_'' @
               map (\<lambda>c. if c = CHR '':'' then CHR ''-'' else c) (isoTime st)"
  from False show ?thesis
    by (intro exI [of _ "[?base @ ''.csv'']"])
       (simp add: writeResults_def Let_def stdout_write_def fs_writeFileSync_def)
qed

lemma st_one_fields:
  "applications st_one = [(''g1'', app1)]" "sent st_one = 0" "out st_one = []"
  "libraryName st_one = ''log4j-core''" "region st_one = ''us''"
  "argv st_one = [''node'', ''nr-find-lib.js'']" "isoTime st_one = ''2021-12-14T10:00:00.000Z''"
  by (simp_all add: st_one_def)

lemma g1_not_index: "\<not> is_array_index ''g1''"
  by (simp add: is_array_index_def is_digit_def)

lemma entries_one: "Object_entries [(''g1'', a)] = [(''g1'', a)]"
  by (simp add: Object_entries_def g1_not_index)

lemma run_blank_apps:
  "applications (snd (findModulesByEntity srv_blank st_one)) =
     [(''g1'', merge_entity entity_blank insts_blank app1)]"
  by (simp add: findModulesByEntity_def entity_step_def nerdgraphQuery_def first_try_def
      buildRequestPromise_def srv_blank_def entity_shape_def data_of_entity_def entity_blank_def
      stdout_write_def Let_def st_one_fields entries_one upd_at_def writeResults_state)

lemma run_blank_files:
  "files_of (out (snd (findModulesByEntity srv_blank st_one))) =
     [(''log4j-core_scan_us_2021-12-14T10-00-00.000Z.csv'',
       reported False [(''g1'', merge_entity entity_blank insts_blank app1)])]"
  by (simp add: findModulesByEntity_def entity_step_def nerdgraphQuery_def first_try_def
      buildRequestPromise_def srv_blank_def entity_shape_def data_of_entity_def entity_blank_def
      stdout_write_def Let_def st_one_fields entries_one upd_at_def writeResults_def
      fs_writeFileSync_def)

lemma blank_library: "library (merge_entity entity_blank insts_blank app1) = Some []"
  by (simp add: merge_entity_eq all_modules_def insts_blank_def mod_blank_def)

text \<open>
  C7, as stated, fails. The lookup below reports a module whose name is the empty
  string: after the scan the record has a \<^verbatim>\<open>library\<close> field, and the file written
  without \<^verbatim>\<open>--all-services\<close> has no row.
\<close>

theorem blank_library_counterexample:
  "map (\<lambda>kv. library (snd kv)) (applications (snd (findModulesByEntity srv_blank st_one))) = [Some []] \<and>
   files_of (out (snd (findModulesByEntity srv_blank st_one))) =
     [(''log4j-core_scan_us_2021-12-14T10-00-00.000Z.csv'', [])]"
  by (simp add: run_blank_apps run_blank_files blank_library reported_def Object_values_def
      entries_one)

lemma set_reported_False:
  "set (reported False m) = {a \<in> snd ` set m. \<exists>s. library a = Some s \<and> s \<noteq> []}"
proof -
  have t: "truthy v = (\<exists>s. v = Some s \<and> s \<noteq> [])" for v
    by (cases v) auto
  have "set (Object_values m) = snd ` set m"
    by (simp add: Object_values_def)
  then show ?thesis
    by (auto simp: reported_def Let_def t)
qed

text \<open>
  C7, amended. Every file the reporter writes holds the same rows: without
  \<^verbatim>\<open>--all-services\<close>, the records of the entity map whose \<^verbatim>\<open>library\<close> is present and
  not the empty string, in the order of \<^verbatim>\<open>Object.values\<close>; with it, every record of
  the map. The reporter sends no request and leaves the entity map as it was.
\<close>

theorem reporter_rows:
  "(\<exists>names. names \<noteq> [] \<and>
      files_of (out (writeResults st)) =
        files_of (out st) @
        map (\<lambda>f. (f, reported (''--all-services'' \<in> set (argv st)) (applications st))) names) \<and>
   reported False m = filter (\<lambda>a. truthy (library a)) (Object_values m) \<and>
   set (reported False m) = {a \<in> snd ` set m. \<exists>s. library a = Some s \<and> s \<noteq> []} \<and>
   reported True m = Object_values m \<and>
   mset (reported True m) = mset (map snd m) \<and>
   applications (writeResults st) = applications st \<and>
   requests (out (writeResults st)) = requests (out st) \<and>
   sent (writeResults st) = sent st"
proof (intro conjI)
  show "\<exists>names. names \<noteq> [] \<and>
      files_of (out (writeResults st)) =
        files_of (out st) @
        map (\<lambda>f. (f, reported (''--all-services'' \<in> set (argv st)) (applications st))) names"
    by (rule writeResults_files)
  show "reported False m = filter (\<lambda>a. truthy (library a)) (Object_values m)"
    by (simp add: reported_def)
  show "set (reported False m) = {a \<in> snd ` set m. \<exists>s. library a = Some s \<and> s \<noteq> []}"
    by (rule set_reported_False)
  show "reported True m = Object_values m"
    by (simp add: reported_def)
  show "mset (reported True m) = mset (map snd m)"
    by (simp add: reported_def mset_Object_values)
  show "applications (writeResults st) = applications st"
    by (simp add: writeResults_state)
  show "requests (out (writeResults st)) = requests (out st)"
    by (simp add: writeResults_state)
  show "sent (writeResults st) = sent st"
    by (simp add: writeResults_state)
qed

lemma g2_not_index: "\<not> is_array_index ''g2''"
  by (simp add: is_array_index_def is_digit_def)

lemma entries_two: "Object_entries [(''g1'', a), (''g2'', b)] = [(''g1'', a), (''g2'', b)]"
  by (simp add: Object_entries_def g1_not_index g2_not_index)

theorem reporter_rows_witness:
  "reported False (applications st_done) = [app_found] \<and>
   reported True (applications st_done) = [app_found, app2] \<and>
   applications (writeResults st_done) = [(''g1'', app_found), (''g2'', app2)]"
proof -
  have a: "applications st_done = [(''g1'', app_found), (''g2'', app2)]"
    by (simp add: st_done_def)
  have l: "library app_found = Some ''log4j-core''" "library app2 = None"
    by (simp_all add: app_found_def app2_def)
  from reporter_rows [of st_done "applications st_done"]
  show ?thesis
    by (simp add: a l Object_values_def entries_two)
qed

subsection \<open>The directory builder\<close>

lemma nerdgraphQuery_resolved:
  assumes "srv (sent w) = Resolved r" and "resp_data r = Some d"
  shows "\<exists>w'. nerdgraphQuery srv q vars w = (Inr (Some d), w') \<and> sent w' = Suc (sent w) \<and>
              requests (out w') = requests (out w) @ [(q, vars)]"
proof (cases "resp_errors r")
  case None
  with assms show ?thesis
    by (simp add: nerdgraphQuery_def first_try_def buildRequestPromise_def Let_def)
next
  case (Some e)
  with assms show ?thesis
    by (simp add: nerdgraphQuery_def first_try_def buildRequestPromise_def Let_def stderr_write_def)
qed

lemma services_loop_pages:
  "page_of d = Some p \<Longrightarrow> chained (p # ps) \<Longrightarrow> serves srv (sent st) ps \<Longrightarrow>
   \<exists>st'. services_loop srv batch (Some d) st = Some (Inr (), st') \<and>
         sent st' = sent st + length ps \<and>
         requests (out st') = requests (out st) @ more_requests (p # ps) \<and>
         applications st' = foldl add_entity (applications st) (concat (map fst (p # ps)))"
proof (induction ps arbitrary: d p st batch)
  case Nil
  obtain ents cursor where p: "p = (ents, cursor)" by (cases p)
  with Nil have c: "\<not> truthy cursor" by simp
  let ?st' = "st\<lparr>applications := foldl add_entity (applications st) ents\<rparr>"
  have "services_loop srv batch (Some d) st = Some (Inr (), ?st')"
    using Nil.prems(1) p c by (subst services_loop.simps) simp
  moreover have "sent ?st' = sent st + length ([] :: (outline list \<times> string option) list)" by simp
  moreover have "requests (out ?st') = requests (out st) @ more_requests [p]"
    by (simp add: more_requests_def)
  moreover have "applications ?st' = foldl add_entity (applications st) (concat (map fst [p]))"
    by (simp add: p)
  ultimately show ?case by (intro exI [of _ ?st'] conjI)
next
  case (Cons q ps)
  obtain ents cursor where p: "p = (ents, cursor)" by (cases p)
  from Cons.prems(2) p have c: "truthy cursor" and ch: "chained (q # ps)" by simp_all
  let ?st1 = "stdout_write (glyph_text batch)
                (st\<lparr>applications := foldl add_entity (applications st) ents\<rparr>)"
  have s1: "sent ?st1 = sent st" by (simp add: stdout_write_def)
  from Cons.prems(3) obtain r d' where
    r: "srv (sent st) = Resolved r" "resp_data r = Some d'" "page_of d' = Some q" and
    sv: "serves srv (Suc (sent st)) ps"
    by (auto split: outcome.splits option.splits)
  from nerdgraphQuery_resolved [of srv ?st1 r d' getMoreServices "[(''cursor'', VStr cursor)]"] r s1
  obtain st2 where
    q: "nerdgraphQuery srv getMoreServices [(''cursor'', VStr cursor)] ?st1 = (Inr (Some d'), st2)" and
    s2: "sent st2 = Suc (sent st)" and
    r2: "requests (out st2) = requests (out ?st1) @ [(getMoreServices, [(''cursor'', VStr cursor)])]"
    by auto
  have a2: "applications st2 = foldl add_entity (applications st) ents"
    using nerdgraphQuery_state [of srv getMoreServices "[(''cursor'', VStr cursor)]" ?st1] q
    by (simp add: stdout_write_def)
  from sv s2 have sv2: "serves srv (sent st2) ps" by simp
  from Cons.IH [OF r(3) ch sv2, of "batch + 1"] obtain st' where
    l: "services_loop srv (batch + 1) (Some d') st2 = Some (Inr (), st')" and
    ls: "sent st' = sent st2 + length ps" and
    lr: "requests (out st') = requests (out st2) @ more_requests (q # ps)" and
    la: "applications st' = foldl add_entity (applications st2) (concat (map fst (q # ps)))"
    by (elim exE conjE)
  have "services_loop srv batch (Some d) st = Some (Inr (), st')"
    using Cons.prems(1) p c q l by (subst services_loop.simps) simp
  moreover have "sent st' = sent st + length (q # ps)"
    using ls s2 by simp
  moreover have "requests (out st') = requests (out st) @ more_requests (p # q # ps)"
    using lr r2 by (simp add: more_requests_def stdout_write_def p)
  moreover have "applications st' = foldl add_entity (applications st) (concat (map fst (p # q # ps)))"
    using la a2 by (simp add: p)
  ultimately show ?case by (intro exI [of _ st'] conjI)
qed

lemma map_of_replace:
  "map_of (map (\<lambda>(a, b). if a = k then (a, v) else (a, b)) m) k' =
     (if k' = k then map_option (\<lambda>x. v) (map_of m k) else map_of m k')"
  by (induction m) auto

lemma map_of_set_prop:
  "map_of (set_prop k v m) k' = (if k' = k then Some v else map_of m k')"
proof (cases "k \<in> fst ` set m")
  case True
  then obtain x where "map_of m k = Some x"
    by (cases "map_of m k") (auto simp: map_of_eq_None_iff)
  with True show ?thesis by (simp add: set_prop_def map_of_replace)
next
  case False
  then have "map_of m k = None" by (simp add: map_of_eq_None_iff)
  with False show ?thesis by (auto simp: set_prop_def map_add_def split: option.splits)
qed

lemma keys_set_prop:
  "map fst (set_prop k v m) = (if k \<in> fst ` set m then map fst m else map fst m @ [k])"
proof -
  have "map fst (map (\<lambda>(a, b). if a = k then (a, v) else (a, b)) m) = map fst m"
    by (induction m) auto
  then show ?thesis by (simp add: set_prop_def)
qed

lemma distinct_set_prop: "distinct (map fst m) \<Longrightarrow> distinct (map fst (set_prop k v m))"
  by (auto simp: keys_set_prop)

lemma directory_of_Nil [simp]: "directory_of [] g = None"
  by (simp add: directory_of_def)

lemma directory_of_snoc:
  "directory_of (es @ [e]) g =
     (if g \<noteq> [] \<and> ol_guid e = Some g then Some (app_of_outline e) else directory_of es g)"
  by (cases "filter (\<lambda>e. ol_guid e = Some g) es") (auto simp: directory_of_def)

lemma map_of_add_entity:
  "map_of (add_entity m e) g =
     (if g \<noteq> [] \<and> ol_guid e = Some g then Some (app_of_outline e) else map_of m g)"
  by (cases "ol_guid e") (auto simp: add_entity_def map_of_set_prop)

lemma map_of_foldl_add_entity:
  "map_of (foldl add_entity m es) g =
     (case directory_of es g of None \<Rightarrow> map_of m g | Some a \<Rightarrow> Some a)"
proof (induction es rule: rev_induct)
  case Nil
  show ?case by simp
next
  case (snoc e es)
  show ?case
    by (simp add: map_of_add_entity directory_of_snoc snoc)
qed

lemma distinct_add_entity: "distinct (map fst m) \<Longrightarrow> distinct (map fst (add_entity m e))"
  by (cases "ol_guid e") (auto simp: add_entity_def distinct_set_prop)

lemma distinct_foldl_add_entity:
  "distinct (map fst m) \<Longrightarrow> distinct (map fst (foldl add_entity m es))"
  by (induction es rule: rev_induct) (auto simp: distinct_add_entity)

lemma chained_nonempty: "chained ps \<Longrightarrow> ps \<noteq> []"
  by (cases ps) auto

lemma buildDirectory_pages:
  assumes "serves srv (sent st) ps" and "chained ps"
  shows "\<exists>st'. buildDirectory srv st = Some (Inr (), st') \<and>
           sent st' = sent st + length ps \<and>
           requests (out st') = requests (out st) @ (getServices, []) # more_requests ps \<and>
           applications st' = foldl add_entity (applications st) (concat (map fst ps)) \<and>
           (applications st = [] \<longrightarrow>
              map_of (applications st') = directory_of (concat (map fst ps)) \<and>
              distinct (map fst (applications st')))"
proof -
  from assms(2) obtain p ps' where ps: "ps = p # ps'"
    by (cases ps) auto
  let ?st0 = "stdout_write ''Scanning your accounts, this may take some time...\<newline>'' st"
  have s0: "sent ?st0 = sent st" by (simp add: stdout_write_def)
  from assms(1) ps obtain r d where
    r: "srv (sent st) = Resolved r" "resp_data r = Some d" "page_of d = Some p" and
    sv: "serves srv (Suc (sent st)) ps'"
    by (auto split: outcome.splits option.splits)
  from nerdgraphQuery_resolved [of srv ?st0 r d getServices "[]"] r s0
  obtain st1 where
    q: "nerdgraphQuery srv getServices [] ?st0 = (Inr (Some d), st1)" and
    s1: "sent st1 = Suc (sent st)" and
    r1: "requests (out st1) = requests (out ?st0) @ [(getServices, [])]"
    by auto
  have a1: "applications st1 = applications st"
    using nerdgraphQuery_state [of srv getServices "[]" ?st0] q by (simp add: stdout_write_def)
  from r(3) obtain es where es: "search_of (Some d) = Some es"
    by (auto simp: page_of_def split: option.splits)
  let ?st1' = "stdout_write (''Checking '' @ tpl_int (es_count es) @ '' services...   '') st1"
  have sv1: "serves srv (sent ?st1') ps'"
    using sv s1 by (simp add: stdout_write_def)
  from assms(2) ps have ch: "chained (p # ps')" by simp
  from services_loop_pages [OF r(3) ch sv1, of 1] obtain st2 where
    l: "services_loop srv 1 (Some d) ?st1' = Some (Inr (), st2)" and
    ls: "sent st2 = sent ?st1' + length ps'" and
    lr: "requests (out st2) = requests (out ?st1') @ more_requests (p # ps')" and
    la: "applications st2 = foldl add_entity (applications ?st1') (concat (map fst (p # ps')))"
    by (elim exE conjE)
  let ?st' = "stdout_write
                ([CHR 0x08, CHR 0x08, CHR 0x08] @ '' done. Actual service count is '' @
                 show_nat (length (Object_values (applications st2))) @ ''.\<newline>'') st2"
  have A: "buildDirectory srv st = Some (Inr (), ?st')"
    using q es l by (simp add: buildDirectory_def)
  have B: "sent ?st' = sent st + length ps"
    using ls s1 by (simp add: stdout_write_def ps)
  have C: "requests (out ?st') = requests (out st) @ (getServices, []) # more_requests ps"
    using lr r1 by (simp add: stdout_write_def ps)
  have D: "applications ?st' = foldl add_entity (applications st) (concat (map fst ps))"
    using la a1 by (simp add: stdout_write_def ps)
  have E: "applications st = [] \<longrightarrow>
              map_of (applications ?st') = directory_of (concat (map fst ps)) \<and>
              distinct (map fst (applications ?st'))"
  proof
    assume e: "applications st = []"
    have "map_of (applications ?st') g = directory_of (concat (map fst ps)) g" for g
      by (simp only: D e map_of_foldl_add_entity) (simp split: option.splits)
    then have "map_of (applications ?st') = directory_of (concat (map fst ps))"
      by (rule ext)
    moreover have "distinct (map fst (applications ?st'))"
      by (simp only: D e) (rule distinct_foldl_add_entity, simp)
    ultimately show "map_of (applications ?st') = directory_of (concat (map fst ps)) \<and>
              distinct (map fst (applications ?st'))" by (rule conjI)
  qed
  show ?thesis
    by (rule exI [of _ ?st']) (intro conjI A B C D E)
qed

text \<open>
  C1. If the next requests are answered with the pages \<open>ps\<close>, of which every page but
  the last carries a non-empty \<^verbatim>\<open>nextCursor\<close>, the directory builder returns after
  exactly as many requests as there are pages: \<^verbatim>\<open>getServices\<close> first, then one
  \<^verbatim>\<open>getMoreServices\<close> for each page but the last, with the cursor of that page and in
  the order of the pages. The entities of all pages are added in order; starting from
  the empty map, the result maps every non-empty guid to the record of the last
  entity that carries it, and holds every guid once.
\<close>

theorem directory_pagination:
  assumes "serves srv (sent st) ps" and "chained ps"
  shows "\<exists>st'. buildDirectory srv st = Some (Inr (), st') \<and>
           sent st' = sent st + length ps \<and>
           requests (out st') = requests (out st) @ (getServices, []) # more_requests ps \<and>
           applications st' = foldl add_entity (applications st) (concat (map fst ps)) \<and>
           (applications st = [] \<longrightarrow>
              map_of (applications st') = directory_of (concat (map fst ps)) \<and>
              distinct (map fst (applications st')))"
  using assms by (rule buildDirectory_pages)

lemma page_of_data_of_page: "page_of (data_of_page ents cursor) = Some (ents, cursor)"
  by (simp add: page_of_def search_of_def data_of_page_def)

lemma st_init_fields: "sent st_init = 0" "out st_init = []" "applications st_init = []"
  by (simp_all add: st_init_def)

lemma ol_guids:
  "ol_guid ol_a = Some ''gA''" "ol_guid ol_b = Some ''gB''" "ol_guid ol_null = None"
  "ol_guid ol_a2 = Some ''gA''" "ol_guid ol_blank = Some []"
  by (simp_all add: ol_a_def ol_b_def ol_null_def ol_a2_def ol_blank_def)

theorem directory_pagination_witness:
  "\<exists>st'. buildDirectory srv_pages st_init = Some (Inr (), st') \<and>
         sent st' = 2 \<and>
         requests (out st') =
           [(getServices, []), (getMoreServices, [(''cursor'', VStr (Some ''c1''))])] \<and>
         applications st' = [(''gA'', app_of_outline ol_a2), (''gB'', app_of_outline ol_b)]"
proof -
  let ?ps = "[([ol_a, ol_b, ol_null], Some ''c1''), ([ol_a2, ol_blank], None)]"
  have sv: "serves srv_pages (sent st_init) ?ps"
    by (simp add: st_init_fields srv_pages_def page_of_data_of_page)
  have ch: "chained ?ps"
    by simp
  from directory_pagination [OF sv ch] obtain st' where
    a: "buildDirectory srv_pages st_init = Some (Inr (), st')" and
    b: "sent st' = sent st_init + length ?ps" and
    c: "requests (out st') = requests (out st_init) @ (getServices, []) # more_requests ?ps" and
    d: "applications st' = foldl add_entity (applications st_init) (concat (map fst ?ps))"
    by (elim exE conjE)
  have b': "sent st' = 2"
    using b by (simp add: st_init_fields)
  have c': "requests (out st') =
           [(getServices, []), (getMoreServices, [(''cursor'', VStr (Some ''c1''))])]"
    using c by (simp add: st_init_fields more_requests_def)
  have d': "applications st' = [(''gA'', app_of_outline ol_a2), (''gB'', app_of_outline ol_b)]"
    using d by (simp add: st_init_fields add_entity_def ol_guids set_prop_def)
  show ?thesis
    by (rule exI [of _ st']) (intro conjI a b' c' d')
qed

subsection \<open>The per-account enricher: synthesis of a missing record\<close>

lemma atob_std_examples:
  "atob_std ''MXxBUE18QVBQTElDQVRJT058NDI'' = Some ''1|APM|APPLICATION|42''"
  "atob_std ''MXxBUE18QVBQTElDQVRJT04='' = Some ''1|APM|APPLICATION''"
  "atob_std ''not base64!'' = None"
  by code_simp+

lemma getApplicationIdFromGuid_examples:
  "getApplicationIdFromGuid atob_std ''MXxBUE18QVBQTElDQVRJT058NDI'' = Some (Num 42)"
  "getApplicationIdFromGuid atob_std ''MXxBUE18QVBQTElDQVRJT04='' = Some NaN"
  "getApplicationIdFromGuid atob_std ''not base64!'' = None"
  "getApplicationIdFromGuid atob_std [] = None"
  by code_simp+

text \<open>Numbers as the program reads and prints them: \<^verbatim>\<open>parseInt\<close> stops at the first
  character that is no digit and rounds to a double; the text of a number has the
  shortest digits that give the double back, in exponent form from \<open>10^21\<close> on.\<close>

lemma parse_examples:
  "parseInt (nth_opt (split_on CHR ''|'' ''1|APM|APPLICATION'') 3) = NaN"
  "parseInt (Some ''42abc'') = Num 42"
  "parseInt (Some '' -0x1F'') = Num (- 31)"
  "parseInt (Some ''abc'') = NaN"
  "parseInt (Some ''9007199254740993'') = Num 9007199254740992"
  by code_simp+

lemma show_examples:
  "show_int 0 = ''0''"
  "show_int (- 42) = ''-42''"
  "show_int 9007199254740993 = ''9007199254740992''"
  "show_int 123456789012345678901 = ''123456789012345680000''"
  "show_int 1000000000000000000000 = ''1e+21''"
  "show_int 1180591620717411303424 = ''1.1805916207174113e+21''"
  by code_simp+

lemma identity_apply_module [simp]: "identity_of (apply_module a m) = identity_of a"
  by (simp add: identity_of_def apply_module_eq)

lemma map_of_None_keys: "(map_of m g = None) = (g \<notin> set (map fst m))"
  by (simp add: map_of_eq_None_iff)

lemma keys_apply_guid:
  "map fst (apply_guid atob accId appName mo apps g) =
     (if g \<in> set (map fst apps) then map fst apps else map fst apps @ [g])"
  by (auto simp: apply_guid_def Let_def keys_set_prop map_of_None_keys)

lemma map_of_apply_guid:
  "map_of (apply_guid atob accId appName mo apps g) g' =
     (if g' = g
      then Some (apply_module (case map_of apps g of
                                 None \<Rightarrow> synthesized atob accId appName g
                               | Some a \<Rightarrow> a) mo)
      else map_of apps g')"
  by (cases "map_of apps g") (simp_all add: apply_guid_def Let_def map_of_upd_at map_of_set_prop)

lemma fresh_record_new:
  assumes "map_of apps g = None"
  shows "fresh_record atob accId appName g (apply_guid atob accId appName mo apps g)"
proof -
  from assms have k: "g \<notin> set (map fst apps)"
    by (simp add: map_of_None_keys)
  then have c: "count_list (map fst apps) g = 0"
    by (simp add: count_list_0_iff)
  have "map_of (apply_guid atob accId appName mo apps g) g =
          Some (apply_module (synthesized atob accId appName g) mo)"
    by (simp only: map_of_apply_guid assms option.case) simp
  moreover have "count_list (map fst (apply_guid atob accId appName mo apps g)) g = 1"
    using k c by (simp add: keys_apply_guid)
  ultimately show ?thesis
    by (simp add: fresh_record_def)
qed

lemma fresh_record_kept:
  assumes "fresh_record atob accId appName g apps"
  shows "fresh_record atob accId appName g (apply_guid atob accId' appName' mo apps g')"
proof -
  from assms obtain r where r: "map_of apps g = Some r"
    "identity_of r = identity_of (synthesized atob accId appName g)"
    and c: "count_list (map fst apps) g = 1"
    by (auto simp: fresh_record_def split: option.splits)
  from r(1) have k: "g \<in> set (map fst apps)"
    by (metis map_of_None_keys option.distinct(1))
  show ?thesis
  proof (cases "g' = g")
    case True
    with r c k show ?thesis
      by (simp add: fresh_record_def keys_apply_guid map_of_apply_guid)
  next
    case False
    with r c k show ?thesis
      by (simp add: fresh_record_def keys_apply_guid map_of_apply_guid)
  qed
qed

lemma fresh_record_foldl_kept:
  "fresh_record atob accId appName g apps \<Longrightarrow>
   fresh_record atob accId appName g (foldl (apply_guid atob accId' appName' mo) apps gs)"
  by (induction gs arbitrary: apps) (simp_all add: fresh_record_kept)

lemma map_of_apply_guid_other:
  "g' \<noteq> g \<Longrightarrow> map_of (apply_guid atob accId appName mo apps g') g = map_of apps g"
  by (simp add: map_of_apply_guid)

lemma fresh_record_foldl_new:
  "map_of apps g = None \<Longrightarrow> g \<in> set gs \<Longrightarrow>
   fresh_record atob accId appName g (foldl (apply_guid atob accId appName mo) apps gs)"
proof (induction gs arbitrary: apps)
  case Nil
  then show ?case by simp
next
  case (Cons g' gs)
  show ?case
  proof (cases "g' = g")
    case True
    with Cons.prems(1) show ?thesis
      by (simp add: fresh_record_foldl_kept fresh_record_new)
  next
    case False
    with Cons.prems have "map_of (apply_guid atob accId appName mo apps g') g = None" "g \<in> set gs"
      by (simp_all add: map_of_apply_guid_other)
    then show ?thesis
      using Cons.IH by simp
  qed
qed

lemma apply_loaded_Some:
  "apply_loaded atob accId appName host (Some gs) mo st =
     (Inr (), (if length gs < 1 then stdout_write (guid_warning appName host mo) st else st)
        \<lparr>applications := foldl (apply_guid atob accId appName mo) (applications st) gs\<rparr>)"
  by (simp add: apply_loaded_def Let_def stdout_write_def)

lemma loaded_loop_Some:
  "\<exists>st'. loaded_loop atob accId appName host (Some gs) ms st = (Inr (), st') \<and>
         applications st' =
           foldl (\<lambda>apps mo. foldl (apply_guid atob accId appName mo) apps gs) (applications st) ms \<and>
         sent st' = sent st \<and> requests (out st') = requests (out st)"
proof (induction ms arbitrary: st)
  case Nil
  show ?case by simp
next
  case (Cons mo ms)
  define st1 where "st1 =
    (if length gs < 1 then stdout_write (guid_warning appName host mo) st else st)
        \<lparr>applications := foldl (apply_guid atob accId appName mo) (applications st) gs\<rparr>"
  have al: "apply_loaded atob accId appName host (Some gs) mo st = (Inr (), st1)"
    by (simp only: apply_loaded_Some st1_def)
  have p1: "applications st1 = foldl (apply_guid atob accId appName mo) (applications st) gs"
    "sent st1 = sent st" "requests (out st1) = requests (out st)"
    by (simp_all add: st1_def stdout_write_def)
  from Cons.IH [of st1] obtain st' where
    l: "loaded_loop atob accId appName host (Some gs) ms st1 = (Inr (), st')" and
    a: "applications st' =
          foldl (\<lambda>apps mo. foldl (apply_guid atob accId appName mo) apps gs) (applications st1) ms" and
    s: "sent st' = sent st1" and r: "requests (out st') = requests (out st1)"
    by (elim exE conjE)
  have A: "loaded_loop atob accId appName host (Some gs) (mo # ms) st = (Inr (), st')"
    by (simp add: al l)
  have B: "applications st' =
           foldl (\<lambda>apps mo. foldl (apply_guid atob accId appName mo) apps gs) (applications st) (mo # ms)"
    using a by (simp add: p1)
  have C: "sent st' = sent st"
    using s by (simp add: p1)
  have D: "requests (out st') = requests (out st)"
    using r by (simp add: p1)
  show ?case
    by (rule exI [of _ st']) (intro conjI A B C D)
qed

lemma fresh_record_modules_kept:
  "fresh_record atob accId appName g apps \<Longrightarrow>
   fresh_record atob accId appName g
     (foldl (\<lambda>apps mo. foldl (apply_guid atob accId' appName' mo) apps gs) apps ms)"
  by (induction ms arbitrary: apps) (simp_all add: fresh_record_foldl_kept)

lemma fresh_record_modules_new:
  assumes "map_of apps g = None" and "g \<in> set gs" and "ms \<noteq> []"
  shows "fresh_record atob accId appName g
           (foldl (\<lambda>apps mo. foldl (apply_guid atob accId appName mo) apps gs) apps ms)"
proof -
  from assms(3) obtain mo ms' where ms: "ms = mo # ms'" by (cases ms) auto
  have "fresh_record atob accId appName g (foldl (apply_guid atob accId appName mo) apps gs)"
    using assms(1,2) by (rule fresh_record_foldl_new)
  then show ?thesis
    by (simp add: ms fresh_record_modules_kept)
qed

lemma synthesized_fields:
  "accountId (synthesized atob accId appName g) = Some accId"
  "guid (synthesized atob accId appName g) = Some g"
  "name (synthesized atob accId appName g) = Some appName"
  "applicationId (synthesized atob accId appName g) = getApplicationIdFromGuid atob g"
  "nrUrl (synthesized atob accId appName g) =
     Some (if truthy_num (getApplicationIdFromGuid atob g)
           then nrUrl_of (show_int accId)
                  (case getApplicationIdFromGuid atob g of Some v \<Rightarrow> show_num v | None \<Rightarrow> [])
           else [])"
  by (simp_all add: synthesized_def Let_def)

text \<open>
  Synthesis of a missing record. When a module result with at least one loaded module
  lists a guid that the directory does not hold, processing the result leaves exactly one record under that
  guid. Its \<^verbatim>\<open>accountId\<close>, \<^verbatim>\<open>guid\<close> and \<^verbatim>\<open>name\<close> are the account, the guid and the
  stripped host name; its \<^verbatim>\<open>applicationId\<close> is what \<^verbatim>\<open>getApplicationIdFromGuid\<close>
  returns: \<^verbatim>\<open>parseInt\<close> of the fourth field of the decoded guid split at \<^verbatim>\<open>|\<close>, and
  nothing when the guid is empty or \<^verbatim>\<open>atob\<close> throws; its \<^verbatim>\<open>nrUrl\<close> is built from the
  account and the application id when that id is truthy and is the empty string
  otherwise, in particular when the guid does not decode.
\<close>

lemma process_result_synthesizes:
  assumes "mr_loadedModules result = Some loaded" and "loaded \<noteq> []"
    and "mr_details result = Some det" and "det_name det = Some nm"
    and "mr_applicationGuids result = Some gs" and "g \<in> set gs"
    and "map_of (applications st) g = None"
  shows "\<exists>st' r. process_result atob accId result st = (Inr (), st') \<and>
           count_list (map fst (applications st')) g = 1 \<and>
           map_of (applications st') g = Some r \<and>
           accountId r = Some accId \<and> guid r = Some g \<and> name r = Some (appName_of nm) \<and>
           applicationId r = getApplicationIdFromGuid atob g \<and>
           (\<forall>d. g \<noteq> [] \<and> atob g = Some d \<longrightarrow>
              applicationId r = Some (parseInt (nth_opt (split_on CHR ''|'' d) 3))) \<and>
           nrUrl r =
             Some (if truthy_num (applicationId r)
                   then nrUrl_of (show_int accId)
                          (case applicationId r of Some v \<Rightarrow> show_num v | None \<Rightarrow> [])
                   else []) \<and>
           (g = [] \<or> atob g = None \<longrightarrow> applicationId r = None \<and> nrUrl r = Some [])"
proof -
  from loaded_loop_Some [of atob accId "appName_of nm" "det_host det" gs loaded st]
  obtain st' where
    l: "loaded_loop atob accId (appName_of nm) (det_host det) (Some gs) loaded st = (Inr (), st')" and
    a: "applications st' =
          foldl (\<lambda>apps mo. foldl (apply_guid atob accId (appName_of nm) mo) apps gs)
            (applications st) loaded"
    by (elim exE conjE)
  have A: "process_result atob accId result st = (Inr (), st')"
    using assms(1-5) l by (simp add: process_result_def)
  have "fresh_record atob accId (appName_of nm) g (applications st')"
    unfolding a using assms(7,6,2) by (rule fresh_record_modules_new)
  then obtain r where
    B: "count_list (map fst (applications st')) g = 1" and
    C: "map_of (applications st') g = Some r" and
    i: "identity_of r = identity_of (synthesized atob accId (appName_of nm) g)"
    by (auto simp: fresh_record_def split: option.splits)
  from i have D: "accountId r = Some accId" and E: "guid r = Some g" and
    F: "name r = Some (appName_of nm)" and
    G: "applicationId r = getApplicationIdFromGuid atob g" and
    u: "nrUrl r =
     Some (if truthy_num (getApplicationIdFromGuid atob g)
           then nrUrl_of (show_int accId)
                  (case getApplicationIdFromGuid atob g of Some v \<Rightarrow> show_num v | None \<Rightarrow> [])
           else [])"
    by (simp_all add: identity_of_def synthesized_fields)
  have H: "\<forall>d. g \<noteq> [] \<and> atob g = Some d \<longrightarrow>
              applicationId r = Some (parseInt (nth_opt (split_on CHR ''|'' d) 3))"
    by (simp add: G getApplicationIdFromGuid_def Let_def)
  have I: "nrUrl r =
             Some (if truthy_num (applicationId r)
                   then nrUrl_of (show_int accId)
                          (case applicationId r of Some v \<Rightarrow> show_num v | None \<Rightarrow> [])
                   else [])"
    by (simp only: u G)
  have J: "g = [] \<or> atob g = None \<longrightarrow> applicationId r = None \<and> nrUrl r = Some []"
    by (auto simp: u G getApplicationIdFromGuid_def)
  show ?thesis
    by (rule exI [of _ st'], rule exI [of _ r]) (intro conjI A B C D E F G H I J)
qed

lemma show_int_examples: "show_int 1 = ''1''" "show_int 42 = ''42''" "show_num (Num 42) = ''42''"
  by code_simp+

lemma appName_of_example: "appName_of ''java:myhost:8080'' = ''myhost''"
  by code_simp

lemma process_result_synthesizes_example:
  "\<exists>st' r r'. process_result atob_std 1 result_new st_one = (Inr (), st') \<and>
      count_list (map fst (applications st')) ''MXxBUE18QVBQTElDQVRJT058NDI'' = 1 \<and>
      map_of (applications st') ''MXxBUE18QVBQTElDQVRJT058NDI'' = Some r \<and>
      accountId r = Some 1 \<and> name r = Some ''myhost'' \<and> applicationId r = Some (Num 42) \<and>
      nrUrl r = Some ''https://rpm.newrelic.com/accounts/1/applications/42/environment'' \<and>
      map_of (applications st') ''not base64!'' = Some r' \<and>
      applicationId r' = None \<and> nrUrl r' = Some []"
proof -
  let ?g = "''MXxBUE18QVBQTElDQVRJT058NDI''"
  let ?b = "''not base64!''"
  let ?det = "\<lparr>det_name = Some ''java:myhost:8080'', det_host = Some ''myhost''\<rparr>"
  have h1: "mr_loadedModules result_new = Some [mod_old, mod_full]"
    and h3: "mr_details result_new = Some ?det"
    and h5: "mr_applicationGuids result_new = Some [?g, ?b]"
    by (simp_all add: result_new_def)
  have h2: "[mod_old, mod_full] \<noteq> []" by simp
  have h4: "det_name ?det = Some ''java:myhost:8080''" by simp
  have h6: "?g \<in> set [?g, ?b]" "?b \<in> set [?g, ?b]" by simp_all
  have h7: "map_of (applications st_one) ?g = None" "map_of (applications st_one) ?b = None"
    by (simp_all add: st_one_fields)
  from process_result_synthesizes [OF h1 h2 h3 h4 h5 h6(1) h7(1), of atob_std 1]
  obtain st' r where
    a: "process_result atob_std 1 result_new st_one = (Inr (), st')" and
    b: "count_list (map fst (applications st')) ?g = 1" and
    c: "map_of (applications st') ?g = Some r" and
    d: "accountId r = Some 1" and
    e: "name r = Some (appName_of ''java:myhost:8080'')" and
    f: "applicationId r = getApplicationIdFromGuid atob_std ?g" and
    u: "nrUrl r =
             Some (if truthy_num (applicationId r)
                   then nrUrl_of (show_int 1)
                          (case applicationId r of Some v \<Rightarrow> show_num v | None \<Rightarrow> [])
                   else [])"
    by (elim exE conjE)
  from process_result_synthesizes [OF h1 h2 h3 h4 h5 h6(2) h7(2), of atob_std 1]
  obtain st2 r' where
    a2: "process_result atob_std 1 result_new st_one = (Inr (), st2)" and
    c2: "map_of (applications st2) ?b = Some r'" and
    j2: "?b = [] \<or> atob_std ?b = None \<longrightarrow> applicationId r' = None \<and> nrUrl r' = Some []"
    by (elim exE conjE)
  from a a2 have eq: "st2 = st'" by simp
  have f': "applicationId r = Some (Num 42)"
    by (simp only: f getApplicationIdFromGuid_examples)
  have e': "name r = Some ''myhost''"
    by (simp only: e appName_of_example)
  have u': "nrUrl r = Some ''https://rpm.newrelic.com/accounts/1/applications/42/environment''"
    by (simp add: u f' show_int_examples nrUrl_of_def)
  have c2': "map_of (applications st') ?b = Some r'"
    using c2 eq by simp
  have k: "applicationId r' = None" "nrUrl r' = Some []"
    using j2 by (simp_all add: atob_std_examples)
  show ?thesis
    by (rule exI [of _ st'], rule exI [of _ r], rule exI [of _ r'])
       (intro conjI a b c d e' f' u' c2' k)
qed

text \<open>
  C5. A missing record is synthesized as lemma \<open>process_result_synthesizes\<close> says, and
  its \<^verbatim>\<open>applicationId\<close> is absent when the guid is empty or \<^verbatim>\<open>atob\<close> throws. A guid
  that decodes to a text without a number in its fourth field is the case the source
  misses: \<^verbatim>\<open>parseInt\<close> gives \<^verbatim>\<open>NaN\<close>, \<^verbatim>\<open>getApplicationIdFromGuid\<close> returns it where its
  documentation promises \<^verbatim>\<open>undefined\<close> on failure, and the record keeps \<^verbatim>\<open>NaN\<close> as its
  \<^verbatim>\<open>applicationId\<close>, which is not an absent one; its reporting URL is empty.
\<close>

theorem guid_without_number_gets_NaN:
  assumes "mr_loadedModules result = Some loaded" and "loaded \<noteq> []"
    and "mr_details result = Some det" and "det_name det = Some nm"
    and "mr_applicationGuids result = Some gs" and "g \<in> set gs"
    and "map_of (applications st) g = None"
    and "g \<noteq> []" and "atob g = Some d"
    and "parseInt (nth_opt (split_on CHR ''|'' d) 3) = NaN"
  shows "getApplicationIdFromGuid atob g = Some NaN \<and>
         (\<exists>st' r. process_result atob accId result st = (Inr (), st') \<and>
            count_list (map fst (applications st')) g = 1 \<and>
            map_of (applications st') g = Some r \<and>
            applicationId r = Some NaN \<and> applicationId r \<noteq> None \<and> nrUrl r = Some [])"
proof -
  have G: "getApplicationIdFromGuid atob g = Some NaN"
    using assms(8-10) by (simp add: getApplicationIdFromGuid_def Let_def)
  from process_result_synthesizes [OF assms(1-7), of atob accId]
  obtain st' r where
    a: "process_result atob accId result st = (Inr (), st')" and
    b: "count_list (map fst (applications st')) g = 1" and
    c: "map_of (applications st') g = Some r" and
    f: "applicationId r = getApplicationIdFromGuid atob g" and
    u: "nrUrl r =
             Some (if truthy_num (applicationId r)
                   then nrUrl_of (show_int accId)
                          (case applicationId r of Some v \<Rightarrow> show_num v | None \<Rightarrow> [])
                   else [])"
    by (elim exE conjE)
  have f': "applicationId r = Some NaN" by (simp only: f G)
  have n: "applicationId r \<noteq> None" by (simp add: f')
  have u': "nrUrl r = Some []" by (simp add: u f')
  have "\<exists>st' r. process_result atob accId result st = (Inr (), st') \<and>
            count_list (map fst (applications st')) g = 1 \<and>
            map_of (applications st') g = Some r \<and>
            applicationId r = Some NaN \<and> applicationId r \<noteq> None \<and> nrUrl r = Some []"
    by (rule exI [of _ st'], rule exI [of _ r]) (intro conjI a b c f' n u')
  with G show ?thesis by (rule conjI)
qed

theorem guid_without_number_gets_NaN_witness:
  "getApplicationIdFromGuid atob_std ''MXxBUE18QVBQTElDQVRJT04='' = Some NaN \<and>
   (\<exists>st' r. process_result atob_std 1 result_short st_one = (Inr (), st') \<and>
      map_of (applications st') ''MXxBUE18QVBQTElDQVRJT04='' = Some r \<and>
      applicationId r = Some NaN \<and> nrUrl r = Some [])"
proof -
  let ?g = "''MXxBUE18QVBQTElDQVRJT04=''"
  let ?det = "\<lparr>det_name = Some ''java:myhost:8080'', det_host = Some ''myhost''\<rparr>"
  have h1: "mr_loadedModules result_short = Some [mod_full]"
    and h3: "mr_details result_short = Some ?det"
    and h5: "mr_applicationGuids result_short = Some [?g]"
    by (simp_all add: result_short_def)
  have h2: "[mod_full] \<noteq> []" by simp
  have h4: "det_name ?det = Some ''java:myhost:8080''" by simp
  have h6: "?g \<in> set [?g]" by simp
  have h7: "map_of (applications st_one) ?g = None" by (simp add: st_one_fields)
  have h8: "?g \<noteq> []" by simp
  have h9: "atob_std ?g = Some ''1|APM|APPLICATION''" by (rule atob_std_examples)
  have h10: "parseInt (nth_opt (split_on CHR ''|'' ''1|APM|APPLICATION'') 3) = NaN"
    by (rule parse_examples)
  from guid_without_number_gets_NaN
         [where atob = atob_std and accId = 1, OF h1 h2 h3 h4 h5 h6 h7 h8 h9 h10]
  have G: "getApplicationIdFromGuid atob_std ?g = Some NaN" and
    E: "\<exists>st' r. process_result atob_std 1 result_short st_one = (Inr (), st') \<and>
            count_list (map fst (applications st')) ?g = 1 \<and>
            map_of (applications st') ?g = Some r \<and>
            applicationId r = Some NaN \<and> applicationId r \<noteq> None \<and> nrUrl r = Some []"
    by (rule conjunct1, rule conjunct2)
  from E obtain st' r where
    a: "process_result atob_std 1 result_short st_one = (Inr (), st')" and
    c: "map_of (applications st') ?g = Some r" and
    f: "applicationId r = Some NaN" and u: "nrUrl r = Some []"
    by (elim exE conjE)
  have "\<exists>st' r. process_result atob_std 1 result_short st_one = (Inr (), st') \<and>
      map_of (applications st') ?g = Some r \<and>
      applicationId r = Some NaN \<and> nrUrl r = Some []"
    by (rule exI [of _ st'], rule exI [of _ r]) (intro conjI a c f u)
  with G show ?thesis by (rule conjI)
qed

subsection \<open>Certificate errors end the run\<close>

lemma aborted_simps [simp]: "aborted (Inl a) = Some a" "aborted (Inr x) = None"
  by (simp_all add: aborted_def)

lemma fatal_stop_none: "sent w = n0 \<Longrightarrow> fatal_stop srv n0 a w"
  by (auto simp: fatal_stop_def)

lemma fatal_stop_seq:
  assumes "fatal_stop srv n0 a1 w1" and "a1 \<noteq> Some (Exit 5)" and "fatal_stop srv (sent w1) a2 w2"
  shows "fatal_stop srv n0 a2 w2"
  unfolding fatal_stop_def
proof (intro conjI allI impI)
  from assms(1,3) show "n0 \<le> sent w2" unfolding fatal_stop_def by linarith
next
  fix n assume n: "n0 \<le> n \<and> n < sent w2 \<and> cert_rejected srv n"
  have "\<not> n < sent w1"
  proof
    assume "n < sent w1"
    with n assms(1) have "a1 = Some (Exit 5)" unfolding fatal_stop_def by blast
    with assms(2) show False by simp
  qed
  then have "sent w1 \<le> n" by simp
  with n assms(3) show "a2 = Some (Exit 5)" "sent w2 = Suc n"
    "\<exists>evs q v. out w2 = evs @ [Request q v, Stderr CERT_ERROR_HELP]"
    unfolding fatal_stop_def by blast+
qed

lemma fatal_stop_same_sent:
  "fatal_stop srv n0 a w \<Longrightarrow> a \<noteq> Some (Exit 5) \<Longrightarrow> sent w' = sent w \<Longrightarrow> fatal_stop srv n0 a' w'"
  by (rule fatal_stop_seq [where ?w1.0 = w and ?a1.0 = a]) (simp_all add: fatal_stop_none)

lemma fatal_stop_attempt:
  assumes "sent w' = Suc (sent w)"
    and "cert_rejected srv (sent w) \<Longrightarrow>
           a = Some (Exit 5) \<and> (\<exists>evs q v. out w' = evs @ [Request q v, Stderr CERT_ERROR_HELP])"
  shows "fatal_stop srv (sent w) a w'"
  unfolding fatal_stop_def
proof (intro conjI allI impI)
  show "sent w \<le> sent w'" using assms(1) by simp
next
  fix n assume n: "sent w \<le> n \<and> n < sent w' \<and> cert_rejected srv n"
  with assms(1) have "n = sent w" by simp
  with n assms show "a = Some (Exit 5)" "sent w' = Suc n"
    "\<exists>evs q v. out w' = evs @ [Request q v, Stderr CERT_ERROR_HELP]"
    by simp_all
qed

lemma second_try_fatal:
  "fatal_stop srv (sent w) (aborted (fst (second_try srv q vars w))) (snd (second_try srv q vars w))"
proof (rule fatal_stop_attempt)
  show "sent (snd (second_try srv q vars w)) = Suc (sent w)" by (rule second_try_sent)
next
  assume "cert_rejected srv (sent w)"
  then obtain e where e: "srv (sent w) = Rejected e" "is_cert_error e"
    by (auto simp: cert_rejected_def split: outcome.splits)
  then have "second_try srv q vars w =
     (Inl (Exit 5), stderr_write CERT_ERROR_HELP (w\<lparr>out := out w @ [Request q vars], sent := Suc (sent w)\<rparr>))"
    by (simp add: second_try_def buildRequestPromise_def handleNetworkError_cert)
  then show "aborted (fst (second_try srv q vars w)) = Some (Exit 5) \<and>
    (\<exists>evs q' v. out (snd (second_try srv q vars w)) = evs @ [Request q' v, Stderr CERT_ERROR_HELP])"
    by (simp add: stderr_write_def)
qed

lemma first_try_fatal:
  "fatal_stop srv (sent w) (aborted (fst (first_try srv q vars w))) (snd (first_try srv q vars w))"
proof (rule fatal_stop_attempt)
  show "sent (snd (first_try srv q vars w)) = Suc (sent w)" by (rule first_try_sent)
next
  assume "cert_rejected srv (sent w)"
  then obtain e where e: "srv (sent w) = Rejected e" "is_cert_error e"
    by (auto simp: cert_rejected_def split: outcome.splits)
  then have "first_try srv q vars w =
     (Inl (Exit 5), stderr_write CERT_ERROR_HELP (w\<lparr>out := out w @ [Request q vars], sent := Suc (sent w)\<rparr>))"
    by (simp add: first_try_def buildRequestPromise_def handleNetworkError_cert)
  then show "aborted (fst (first_try srv q vars w)) = Some (Exit 5) \<and>
    (\<exists>evs q' v. out (snd (first_try srv q vars w)) = evs @ [Request q' v, Stderr CERT_ERROR_HELP])"
    by (simp add: stderr_write_def)
qed

lemma nerdgraphQuery_fatal:
  "fatal_stop srv (sent w) (aborted (fst (nerdgraphQuery srv q vars w)))
     (snd (nerdgraphQuery srv q vars w))"
proof -
  obtain r1 w1 where ft: "first_try srv q vars w = (r1, w1)" by (cases "first_try srv q vars w")
  have f1: "fatal_stop srv (sent w) (aborted r1) w1"
    using first_try_fatal [of srv w q vars] ft by simp
  show ?thesis
  proof (cases r1)
    case (Inl a)
    with ft f1 show ?thesis by (simp add: nerdgraphQuery_def)
  next
    case (Inr v)
    show ?thesis
    proof (cases v)
      case (Some d)
      with Inr ft f1 show ?thesis by (simp add: nerdgraphQuery_def)
    next
      case None
      obtain r2 w2 where st: "second_try srv q vars w1 = (r2, w2)"
        by (cases "second_try srv q vars w1")
      have f2: "fatal_stop srv (sent w1) (aborted r2) w2"
        using second_try_fatal [of srv w1 q vars] st by simp
      have nq: "nerdgraphQuery srv q vars w = (r2, w2)"
        using ft Inr None st by (auto simp: nerdgraphQuery_def split: sum.splits option.splits)
      have "fatal_stop srv (sent w) (aborted r2) w2"
        using f1 _ f2 by (rule fatal_stop_seq) (simp add: Inr)
      then show ?thesis by (simp add: nq)
    qed
  qed
qed

lemma nerdgraphQuery_fatal':
  "nerdgraphQuery srv q vars w = (r, w') \<Longrightarrow> fatal_stop srv (sent w) (aborted r) w'"
  using nerdgraphQuery_fatal [of srv w q vars] by simp

lemma entity_step_fatal:
  "fatal_stop srv (sent st) (aborted (fst (entity_step srv ka p n st))) (snd (entity_step srv ka p n st))"
proof -
  let ?vars = "[(''entityGuid'', VStr (guid (snd ka))), (''libraryName'', VStr (Some (libraryName st)))]"
  obtain r st1 where q: "nerdgraphQuery srv getModulesInEntity ?vars st = (r, st1)"
    by (cases "nerdgraphQuery srv getModulesInEntity ?vars st")
  have f: "fatal_stop srv (sent st) (aborted r) st1"
    using q by (rule nerdgraphQuery_fatal')
  show ?thesis
  proof (cases r)
    case (Inl a)
    with q have "fst (nerdgraphQuery srv getModulesInEntity ?vars st) = Inl a" by simp
    then obtain c where "a = Exit c" using nerdgraphQuery_exits by blast
    with q Inl f show ?thesis by (simp add: entity_step_def Let_def)
  next
    case (Inr dat)
    obtain st2 where s: "entity_step srv ka p n st = (Inr (), st2)" and s2: "sent st2 = sent st1"
    proof (cases "entity_shape dat")
      case None
      with q Inr show ?thesis
        by (intro that [of "stdout_write (scanning_text (p + 1) n)
              (stderr_write (entity_warning (snd ka)) st1)"])
           (simp_all add: entity_step_def Let_def stdout_write_def stderr_write_def)
    next
      case (Some ei)
      obtain e insts where "ei = (e, insts)" by (cases ei)
      with Some q Inr show ?thesis
        by (intro that [of "stdout_write (scanning_text (p + 1) n)
              (st1\<lparr>applications := upd_at (fst ka) (merge_entity e insts) (applications st1)\<rparr>)"])
           (simp_all add: entity_step_def Let_def stdout_write_def)
    qed
    have "fatal_stop srv (sent st) None st2"
      using f _ s2 by (rule fatal_stop_same_sent) (simp add: Inr)
    with s show ?thesis by simp
  qed
qed

lemma entity_loop_fatal:
  "fatal_stop srv (sent st) (aborted (fst (entity_loop srv es p n st))) (snd (entity_loop srv es p n st))"
proof (induction es arbitrary: p st)
  case Nil
  show ?case by (simp add: fatal_stop_none)
next
  case (Cons ka es)
  obtain r st1 where s: "entity_step srv ka p n st = (r, st1)" by (cases "entity_step srv ka p n st")
  have f: "fatal_stop srv (sent st) (aborted r) st1"
    using entity_step_fatal [of srv st ka p n] s by simp
  show ?case
  proof (cases r)
    case (Inl a)
    with s f show ?thesis by simp
  next
    case (Inr u)
    have "fatal_stop srv (sent st) (aborted (fst (entity_loop srv es (p + 1) n st1)))
            (snd (entity_loop srv es (p + 1) n st1))"
      using f _ Cons.IH [of st1 "p + 1"] by (rule fatal_stop_seq) (simp add: Inr)
    with s Inr show ?thesis by simp
  qed
qed

lemma findModulesByEntity_fatal:
  "fatal_stop srv (sent st) (aborted (fst (findModulesByEntity srv st)))
     (snd (findModulesByEntity srv st))"
proof -
  let ?n = "length (Object_values (applications st))"
  let ?st0 = "stdout_write (scanning_text 0 ?n) st"
  obtain r st1 where l: "entity_loop srv (Object_entries (applications st)) 0 ?n ?st0 = (r, st1)"
    by (cases "entity_loop srv (Object_entries (applications st)) 0 ?n ?st0")
  have s0: "sent ?st0 = sent st" by (simp add: stdout_write_def)
  have f: "fatal_stop srv (sent st) (aborted r) st1"
    using entity_loop_fatal [of srv ?st0 "Object_entries (applications st)" 0 ?n] l s0 by simp
  show ?thesis
  proof (cases r)
    case (Inl a)
    with l f show ?thesis by (simp add: findModulesByEntity_def Let_def)
  next
    case (Inr u)
    let ?st2 = "writeResults (stdout_write
             ([CHR 0x0D] @ ''Scanning modules (service '' @ show_nat ?n @ '' of '' @
              show_nat ?n @ '')...  done.\<newline>'') st1)"
    have s2: "sent ?st2 = sent st1" by (simp add: writeResults_state stdout_write_def)
    have "fatal_stop srv (sent st) None ?st2"
      using f _ s2 by (rule fatal_stop_same_sent) (simp add: Inr)
    with l Inr show ?thesis by (simp add: findModulesByEntity_def Let_def)
  qed
qed

lemma apply_loaded_quiet:
  "sent (snd (apply_loaded atob accId appName host gs mo st)) = sent st \<and>
   aborted (fst (apply_loaded atob accId appName host gs mo st)) \<noteq> Some (Exit c)"
  by (cases gs) (simp_all add: apply_loaded_def Let_def stdout_write_def)

lemma loaded_loop_quiet:
  "sent (snd (loaded_loop atob accId appName host gs ms st)) = sent st \<and>
   aborted (fst (loaded_loop atob accId appName host gs ms st)) \<noteq> Some (Exit c)"
proof (induction ms arbitrary: st)
  case Nil
  show ?case by simp
next
  case (Cons mo ms)
  obtain r st1 where a: "apply_loaded atob accId appName host gs mo st = (r, st1)"
    by (cases "apply_loaded atob accId appName host gs mo st")
  with apply_loaded_quiet [of atob accId appName host gs mo st c]
  have q: "sent st1 = sent st" "aborted r \<noteq> Some (Exit c)" by simp_all
  show ?case
  proof (cases r)
    case (Inl b)
    with a q show ?thesis by simp
  next
    case (Inr u)
    with a q Cons.IH [of st1] show ?thesis by simp
  qed
qed

lemma process_result_quiet:
  "sent (snd (process_result atob accId result st)) = sent st \<and>
   aborted (fst (process_result atob accId result st)) \<noteq> Some (Exit c)"
  using loaded_loop_quiet
  by (simp add: process_result_def split: option.splits)

lemma results_loop_quiet:
  "sent (snd (results_loop atob accId rs st)) = sent st \<and>
   aborted (fst (results_loop atob accId rs st)) \<noteq> Some (Exit c)"
proof (induction rs arbitrary: st)
  case Nil
  show ?case by simp
next
  case (Cons x rs)
  obtain r st1 where a: "process_result atob accId x st = (r, st1)"
    by (cases "process_result atob accId x st")
  with process_result_quiet [of atob accId x st c]
  have q: "sent st1 = sent st" "aborted r \<noteq> Some (Exit c)" by simp_all
  show ?case
  proof (cases r)
    case (Inl b)
    with a q show ?thesis by simp
  next
    case (Inr u)
    with a q Cons.IH [of st1] show ?thesis by simp
  qed
qed

lemma account_pages_fatal:
  assumes "account_pages atob0 srv0 accId0 batch0 dat0 st0 = Some r0"
  shows "fatal_stop srv0 (sent st0) (aborted (fst r0)) (snd r0)"
proof (rule account_pages.raw_induct
    [where P = "\<lambda>atob srv accId batch dat st r. fatal_stop srv (sent st) (aborted (fst r)) (snd r)",
     OF _ assms], goal_cases)
  case (1 pages atob srv accId batch dat st r)
  show ?case
  proof (cases "modules_shape dat")
    case None
    with 1(2) have "r = (Inr (), st)" by simp
    then show ?thesis by (simp add: fatal_stop_none)
  next
    case (Some ms)
    let ?rs = "case em_results ms of None \<Rightarrow> [] | Some rs \<Rightarrow> rs"
    obtain r1 st1 where rl: "results_loop atob accId ?rs st = (r1, st1)"
      by (cases "results_loop atob accId ?rs st")
    with results_loop_quiet [of atob accId ?rs st 5]
    have q: "sent st1 = sent st" "aborted r1 \<noteq> Some (Exit 5)" by simp_all
    show ?thesis
    proof (cases r1)
      case (Inl a)
      with 1(2) Some rl have "r = (Inl a, st1)" by simp
      with q show ?thesis by (simp add: fatal_stop_none)
    next
      case (Inr u)
      show ?thesis
      proof (cases "truthy (em_nextCursor ms)")
        case False
        with 1(2) Some rl Inr have "r = (Inr (), st1)" by simp
        with q show ?thesis by (simp add: fatal_stop_none)
      next
        case True
        let ?vars = "[(''accountId'', VInt accId), (''cursor'', VStr (em_nextCursor ms)),
                      (''libraryName'', VStr (Some (libraryName st1)))]"
        let ?st1 = "stdout_write (glyph_text batch) st1"
        obtain r2 st2 where nq: "nerdgraphQuery srv getMoreModulesInAccount ?vars ?st1 = (r2, st2)"
          by (cases "nerdgraphQuery srv getMoreModulesInAccount ?vars ?st1")
        have s1: "sent ?st1 = sent st" using q by (simp add: stdout_write_def)
        have f2: "fatal_stop srv (sent st) (aborted r2) st2"
          using nerdgraphQuery_fatal' [OF nq] s1 by simp
        show ?thesis
        proof (cases r2)
          case (Inl a)
          with 1(2) Some rl Inr True nq have "r = (Inl a, st2)" by simp
          with f2 Inl show ?thesis by simp
        next
          case (Inr dat')
          with 1(2) Some rl \<open>r1 = Inr u\<close> True nq
          have "pages atob srv accId (batch + 1) dat' st2 = Some r" by simp
          then have f3: "fatal_stop srv (sent st2) (aborted (fst r)) (snd r)" by (rule 1(1))
          show ?thesis
            using f2 _ f3 by (rule fatal_stop_seq) (simp add: Inr)
        qed
      qed
    qed
  qed
qed

lemma account_try_fatal:
  assumes "account_try atob srv accId st = Some r"
  shows "fatal_stop srv (sent st) (aborted (fst r)) (snd r)"
proof -
  let ?vars = "[(''accountId'', VInt accId), (''libraryName'', VStr (Some (libraryName st)))]"
  obtain r1 st1 where nq: "nerdgraphQuery srv getModulesInAccount ?vars st = (r1, st1)"
    by (cases "nerdgraphQuery srv getModulesInAccount ?vars st")
  have f1: "fatal_stop srv (sent st) (aborted r1) st1"
    using nq by (rule nerdgraphQuery_fatal')
  show ?thesis
  proof (cases r1)
    case (Inl a)
    with assms nq have "r = (Inl a, st1)" by (simp add: account_try_def)
    with f1 Inl show ?thesis by simp
  next
    case (Inr dat)
    with assms nq have "account_pages atob srv accId 1 dat st1 = Some r"
      by (simp add: account_try_def)
    then have f2: "fatal_stop srv (sent st1) (aborted (fst r)) (snd r)"
      by (rule account_pages_fatal)
    show ?thesis
      using f1 _ f2 by (rule fatal_stop_seq) (simp add: Inr)
  qed
qed

lemma account_step_fatal:
  assumes "account_step atob srv accId p n st = Some r"
  shows "fatal_stop srv (sent st) (aborted (fst r)) (snd r)"
proof -
  let ?st0 = "stdout_write ([CHR 0x0D] @ ''Scanning modules (account '' @ show_int accId @ '' - '' @
                show_nat (p + 1) @ '' of '' @ show_nat n @ '')...        '') st"
  have s0: "sent ?st0 = sent st" by (simp add: stdout_write_def)
  from assms obtain r1 st1 where t: "account_try atob srv accId ?st0 = Some (r1, st1)"
    by (cases "account_try atob srv accId ?st0") (auto simp: account_step_def)
  have f1: "fatal_stop srv (sent st) (aborted r1) st1"
    using account_try_fatal [OF t] s0 by simp
  show ?thesis
  proof (cases r1)
    case (Inr u)
    with assms t have "r = (Inr (), st1)" by (simp add: account_step_def)
    with f1 Inr show ?thesis by simp
  next
    case (Inl a)
    show ?thesis
    proof (cases a)
      case (Exit c)
      with assms t Inl have "r = (Inl (Exit c), st1)" by (simp add: account_step_def)
      with f1 Inl Exit show ?thesis by simp
    next
      case (Throw err)
      let ?st2 = "stderr_write (''\<newline>Error fetching data for account '' @ show_int accId @
                  '': '' @ err_toString err @ ''\<newline>'') st1"
      from assms t Inl Throw have r: "r = (Inr (), ?st2)" by (simp add: account_step_def)
      have s2: "sent ?st2 = sent st1" by (simp add: stderr_write_def)
      have "fatal_stop srv (sent st) None ?st2"
        using f1 _ s2 by (rule fatal_stop_same_sent) (simp add: Inl Throw)
      with r show ?thesis by simp
    qed
  qed
qed

lemma account_loop_fatal:
  "account_loop atob srv ids p n st = Some r \<Longrightarrow>
   fatal_stop srv (sent st) (aborted (fst r)) (snd r)"
proof (induction ids arbitrary: p st)
  case Nil
  then show ?case by (auto simp: fatal_stop_none)
next
  case (Cons accId ids)
  from Cons.prems obtain r1 st1 where s: "account_step atob srv accId p n st = Some (r1, st1)"
    by (cases "account_step atob srv accId p n st") auto
  have f1: "fatal_stop srv (sent st) (aborted r1) st1"
    using account_step_fatal [OF s] by simp
  show ?case
  proof (cases r1)
    case (Inl a)
    with Cons.prems s have "r = (Inl a, st1)" by simp
    with f1 Inl show ?thesis by simp
  next
    case (Inr u)
    with Cons.prems s have "account_loop atob srv ids (p + 1) n st1 = Some r" by simp
    then have f2: "fatal_stop srv (sent st1) (aborted (fst r)) (snd r)" by (rule Cons.IH)
    show ?thesis
      using f1 _ f2 by (rule fatal_stop_seq) (simp add: Inr)
  qed
qed

lemma findModulesByAccount_fatal:
  assumes "findModulesByAccount atob srv st = Some r"
  shows "fatal_stop srv (sent st) (aborted (fst r)) (snd r)"
proof -
  let ?n = "length (accountIds st)"
  from assms obtain r1 st1 where l: "account_loop atob srv (accountIds st) 0 ?n st = Some (r1, st1)"
    by (cases "account_loop atob srv (accountIds st) 0 ?n st")
       (auto simp: findModulesByAccount_def Let_def)
  have f1: "fatal_stop srv (sent st) (aborted r1) st1"
    using account_loop_fatal [OF l] by simp
  show ?thesis
  proof (cases r1)
    case (Inl a)
    with assms l have "r = (Inl a, st1)" by (simp add: findModulesByAccount_def Let_def)
    with f1 Inl show ?thesis by simp
  next
    case (Inr u)
    let ?st2 = "writeResults (stdout_write
             ([CHR 0x0D] @ ''Scanning modules ('' @ show_nat ?n @ '' of '' @
              show_nat ?n @ '')... done.                  \<newline>'') st1)"
    from assms l Inr have r: "r = (Inr (), ?st2)" by (simp add: findModulesByAccount_def Let_def)
    have s2: "sent ?st2 = sent st1" by (simp add: writeResults_state stdout_write_def)
    have "fatal_stop srv (sent st) None ?st2"
      using f1 _ s2 by (rule fatal_stop_same_sent) (simp add: Inr)
    with r show ?thesis by simp
  qed
qed

lemma services_loop_fatal:
  assumes "services_loop srv0 batch0 rs0 st0 = Some r0"
  shows "fatal_stop srv0 (sent st0) (aborted (fst r0)) (snd r0)"
proof (rule services_loop.raw_induct
    [where P = "\<lambda>srv batch rs st r. fatal_stop srv (sent st) (aborted (fst r)) (snd r)",
     OF _ assms], goal_cases)
  case (1 loop srv batch rs st r)
  show ?case
  proof (cases rs)
    case None
    with 1(2) have "r = (Inr (), st)" by simp
    then show ?thesis by (simp add: fatal_stop_none)
  next
    case (Some d)
    show ?thesis
    proof (cases "page_of d")
      case None
      with 1(2) Some have "r = (Inl (Throw TypeError), st)" by simp
      then show ?thesis by (simp add: fatal_stop_none)
    next
      case (Some pc)
      obtain ents cursor where pc: "pc = (ents, cursor)" by (cases pc)
      let ?st1 = "st\<lparr>applications := foldl add_entity (applications st) ents\<rparr>"
      show ?thesis
      proof (cases "truthy cursor")
        case False
        with 1(2) \<open>rs = Some d\<close> Some pc have "r = (Inr (), ?st1)" by simp
        then show ?thesis by (simp add: fatal_stop_none)
      next
        case True
        let ?st2 = "stdout_write (glyph_text batch) ?st1"
        obtain r2 st2 where nq:
          "nerdgraphQuery srv getMoreServices [(''cursor'', VStr cursor)] ?st2 = (r2, st2)"
          by (cases "nerdgraphQuery srv getMoreServices [(''cursor'', VStr cursor)] ?st2")
        have s1: "sent ?st2 = sent st" by (simp add: stdout_write_def)
        have f2: "fatal_stop srv (sent st) (aborted r2) st2"
          using nerdgraphQuery_fatal' [OF nq] s1 by simp
        show ?thesis
        proof (cases r2)
          case (Inl a)
          with 1(2) \<open>rs = Some d\<close> Some pc True nq have "r = (Inl a, st2)" by simp
          with f2 Inl show ?thesis by simp
        next
          case (Inr rs')
          with 1(2) \<open>rs = Some d\<close> Some pc True nq
          have "loop srv (batch + 1) rs' st2 = Some r" by simp
          then have f3: "fatal_stop srv (sent st2) (aborted (fst r)) (snd r)" by (rule 1(1))
          show ?thesis
            using f2 _ f3 by (rule fatal_stop_seq) (simp add: Inr)
        qed
      qed
    qed
  qed
qed

lemma buildDirectory_fatal:
  assumes "buildDirectory srv st = Some r"
  shows "fatal_stop srv (sent st) (aborted (fst r)) (snd r)"
proof -
  let ?st0 = "stdout_write ''Scanning your accounts, this may take some time...\<newline>'' st"
  have s0: "sent ?st0 = sent st" by (simp add: stdout_write_def)
  obtain r1 st1 where nq: "nerdgraphQuery srv getServices [] ?st0 = (r1, st1)"
    by (cases "nerdgraphQuery srv getServices [] ?st0")
  have f1: "fatal_stop srv (sent st) (aborted r1) st1"
    using nerdgraphQuery_fatal' [OF nq] s0 by simp
  show ?thesis
  proof (cases r1)
    case (Inl a)
    with assms nq have "r = (Inl a, st1)" by (simp add: buildDirectory_def)
    with f1 Inl show ?thesis by simp
  next
    case (Inr rs)
    show ?thesis
    proof (cases "search_of rs")
      case None
      with assms nq Inr have "r = (Inl (Throw TypeError), st1)" by (simp add: buildDirectory_def)
      moreover have "fatal_stop srv (sent st) (Some (Throw TypeError)) st1"
        using f1 by (rule fatal_stop_same_sent) (simp_all add: Inr)
      ultimately show ?thesis by simp
    next
      case (Some es)
      let ?st1 = "stdout_write (''Checking '' @ tpl_int (es_count es) @ '' services...   '') st1"
      have s1: "sent ?st1 = sent st1" by (simp add: stdout_write_def)
      from assms nq Inr Some obtain r2 st2 where
        l: "services_loop srv 1 rs ?st1 = Some (r2, st2)"
        by (cases "services_loop srv 1 rs ?st1") (auto simp: buildDirectory_def)
      have f2: "fatal_stop srv (sent st1) (aborted r2) st2"
        using services_loop_fatal [OF l] s1 by simp
      have f12: "fatal_stop srv (sent st) (aborted r2) st2"
        using f1 _ f2 by (rule fatal_stop_seq) (simp add: Inr)
      show ?thesis
      proof (cases r2)
        case (Inl a)
        with assms nq \<open>r1 = Inr rs\<close> Some l have "r = (Inl a, st2)"
          by (simp add: buildDirectory_def)
        with f12 Inl show ?thesis by simp
      next
        case (Inr u)
        let ?st3 = "stdout_write
                      ([CHR 0x08, CHR 0x08, CHR 0x08] @ '' done. Actual service count is '' @
                       show_nat (length (Object_values (applications st2))) @ ''.\<newline>'') st2"
        from assms nq \<open>r1 = Inr rs\<close> Some l Inr have r: "r = (Inr (), ?st3)"
          by (simp add: buildDirectory_def)
        have s3: "sent ?st3 = sent st2" by (simp add: stdout_write_def)
        have "fatal_stop srv (sent st) None ?st3"
          using f12 _ s3 by (rule fatal_stop_same_sent) (simp add: Inr)
        with r show ?thesis by simp
      qed
    qed
  qed
qed

lemma findServices_fatal:
  assumes "findServices atob srv st = Some r"
  shows "fatal_stop srv (sent st) (aborted (fst r)) (snd r)"
proof -
  from assms obtain r1 st1 where b: "buildDirectory srv st = Some (r1, st1)"
    by (cases "buildDirectory srv st") (auto simp: findServices_def)
  have f1: "fatal_stop srv (sent st) (aborted r1) st1"
    using buildDirectory_fatal [OF b] by simp
  show ?thesis
  proof (cases r1)
    case (Inl a)
    with assms b have "r = (Inl a, st1)" by (simp add: findServices_def)
    with f1 Inl show ?thesis by simp
  next
    case (Inr u)
    show ?thesis
    proof (cases "''--quick-scan'' \<in> set (argv st1)")
      case False
      with assms b Inr have r: "r = findModulesByEntity srv st1" by (simp add: findServices_def)
      have f2: "fatal_stop srv (sent st1) (aborted (fst r)) (snd r)"
        unfolding r by (rule findModulesByEntity_fatal)
      show ?thesis
        using f1 _ f2 by (rule fatal_stop_seq) (simp add: Inr)
    next
      case True
      with assms b Inr have "findModulesByAccount atob srv st1 = Some r"
        by (simp add: findServices_def)
      then have f2: "fatal_stop srv (sent st1) (aborted (fst r)) (snd r)"
        by (rule findModulesByAccount_fatal)
      show ?thesis
        using f1 _ f2 by (rule fatal_stop_seq) (simp add: Inr)
    qed
  qed
qed

text \<open>
  C3. An error is of the certificate class when its code is 18 or 19 or its text
  contains \<^verbatim>\<open>self signed certificate\<close>. \<^verbatim>\<open>handleNetworkError\<close> answers such an error by
  writing the remediation text to standard error and leaving the process with status
  5. Whenever an attempt of a call of \<^verbatim>\<open>nerdgraphQuery\<close>, of the per-entity enricher or
  of a whole scan that returns is rejected with such an error, the run ends with
  status 5, that attempt is its last request, and the last two events of the run are
  that request and the remediation text: nothing is retried, skipped or processed
  afterwards.
\<close>

theorem certificate_error_is_fatal:
  "(is_cert_error e \<longrightarrow>
      handleNetworkError e w = (Inl (Exit 5), stderr_write CERT_ERROR_HELP w)) \<and>
   fatal_stop srv (sent w) (aborted (fst (nerdgraphQuery srv q vars w)))
     (snd (nerdgraphQuery srv q vars w)) \<and>
   fatal_stop srv (sent st) (aborted (fst (findModulesByEntity srv st)))
     (snd (findModulesByEntity srv st)) \<and>
   (\<forall>r. findServices atob srv st = Some r \<longrightarrow>
      fatal_stop srv (sent st) (aborted (fst r)) (snd r))"
proof (intro conjI allI impI)
  assume "is_cert_error e"
  then show "handleNetworkError e w = (Inl (Exit 5), stderr_write CERT_ERROR_HELP w)"
    by (rule handleNetworkError_cert)
next
  show "fatal_stop srv (sent w) (aborted (fst (nerdgraphQuery srv q vars w)))
     (snd (nerdgraphQuery srv q vars w))"
    by (rule nerdgraphQuery_fatal)
next
  show "fatal_stop srv (sent st) (aborted (fst (findModulesByEntity srv st)))
     (snd (findModulesByEntity srv st))"
    by (rule findModulesByEntity_fatal)
next
  fix r assume "findServices atob srv st = Some r"
  then show "fatal_stop srv (sent st) (aborted (fst r)) (snd r)"
    by (rule findServices_fatal)
qed

lemma err_cert_is_cert: "is_cert_error err_cert"
  by (simp add: is_cert_error_def err_cert_def)

lemma st_two_fields:
  "applications st_two = [(''g1'', app1), (''g2'', app2)]" "sent st_two = 0" "out st_two = []"
  "libraryName st_two = ''log4j-core''"
  by (simp_all add: st_two_def)

lemma ok_then_cert_run:
  "sent (snd (findModulesByEntity srv_ok_then_cert st_two)) = 2"
  "files_of (out (snd (findModulesByEntity srv_ok_then_cert st_two))) = []"
  "map_of (applications (snd (findModulesByEntity srv_ok_then_cert st_two))) ''g2'' = Some app2"
proof -
  have s: "srv_ok_then_cert 0 = Resolved \<lparr>resp_errors = None, resp_data = Some (data_of_entity entity_full)\<rparr>"
    "srv_ok_then_cert (Suc 0) = Rejected err_cert"
    by (simp_all add: srv_ok_then_cert_def)
  have sh: "entity_shape (Some (data_of_entity entity_full)) = Some (entity_full, insts_full)"
    by (simp add: entity_shape_def data_of_entity_def entity_full_def)
  note ev = findModulesByEntity_def entity_step_def nerdgraphQuery_def first_try_def
        buildRequestPromise_def handleNetworkError_cert err_cert_is_cert s sh
        stdout_write_def stderr_write_def Let_def st_two_fields entries_two
  show "sent (snd (findModulesByEntity srv_ok_then_cert st_two)) = 2"
    by (simp add: ev)
  show "files_of (out (snd (findModulesByEntity srv_ok_then_cert st_two))) = []"
    by (simp add: ev)
  show "map_of (applications (snd (findModulesByEntity srv_ok_then_cert st_two))) ''g2'' = Some app2"
    by (simp add: ev map_of_upd_at)
qed

theorem certificate_error_is_fatal_witness:
  "is_cert_error err_cert \<and> srv_ok_then_cert 1 = Rejected err_cert \<and>
   fst (findModulesByEntity srv_ok_then_cert st_two) = Inl (Exit 5) \<and>
   sent (snd (findModulesByEntity srv_ok_then_cert st_two)) = 2 \<and>
   (\<exists>evs q v. out (snd (findModulesByEntity srv_ok_then_cert st_two)) =
       evs @ [Request q v, Stderr CERT_ERROR_HELP]) \<and>
   files_of (out (snd (findModulesByEntity srv_ok_then_cert st_two))) = [] \<and>
   map_of (applications (snd (findModulesByEntity srv_ok_then_cert st_two))) ''g2'' = Some app2"
proof -
  have r: "srv_ok_then_cert 1 = Rejected err_cert"
    by (simp add: srv_ok_then_cert_def)
  have c: "cert_rejected srv_ok_then_cert 1"
    by (simp only: cert_rejected_def r outcome.case err_cert_is_cert)
  from certificate_error_is_fatal [of err_cert w0 srv_ok_then_cert getServices "[]" st_two atob_std]
  have f: "fatal_stop srv_ok_then_cert (sent st_two)
             (aborted (fst (findModulesByEntity srv_ok_then_cert st_two)))
             (snd (findModulesByEntity srv_ok_then_cert st_two))"
    by (elim conjE)
  have rng: "sent st_two \<le> 1 \<and> 1 < sent (snd (findModulesByEntity srv_ok_then_cert st_two)) \<and>
             cert_rejected srv_ok_then_cert 1"
    using c by (simp add: st_two_fields ok_then_cert_run)
  from f rng have
    a: "aborted (fst (findModulesByEntity srv_ok_then_cert st_two)) = Some (Exit 5)" and
    o: "\<exists>evs q v. out (snd (findModulesByEntity srv_ok_then_cert st_two)) =
       evs @ [Request q v, Stderr CERT_ERROR_HELP]"
    unfolding fatal_stop_def by blast+
  from a have a': "fst (findModulesByEntity srv_ok_then_cert st_two) = Inl (Exit 5)"
    by (cases "fst (findModulesByEntity srv_ok_then_cert st_two)") simp_all
  show ?thesis
    by (intro conjI err_cert_is_cert r a' ok_then_cert_run o)
qed

subsection \<open>The invariant of the entity map\<close>

lemma set_replace:
  "set (map (\<lambda>(a, b). if a = k then (a, v) else (a, b)) m) \<subseteq> insert (k, v) (set m)"
  by (induction m) auto

lemma wf_set_prop:
  assumes "wf_map m" and "guid v = Some k"
  shows "wf_map (set_prop k v m)"
proof (cases "k \<in> fst ` set m")
  case True
  have d: "distinct (map fst (set_prop k v m))"
    using assms(1) by (simp add: wf_map_def distinct_set_prop)
  have "set (set_prop k v m) \<subseteq> insert (k, v) (set m)"
    using True set_replace [of k v m] by (simp add: set_prop_def)
  with assms d show ?thesis
    by (auto simp: wf_map_def)
next
  case False
  with assms show ?thesis
    by (auto simp: wf_map_def set_prop_def)
qed

lemma set_upd_at: "kv \<in> set (upd_at k f m) \<Longrightarrow> \<exists>a. (fst kv, a) \<in> set m \<and> (snd kv = a \<or> snd kv = f a)"
  by (induction m) (auto simp: upd_at_def split: if_splits)

lemma wf_upd_at:
  assumes "wf_map m" and "\<And>a. guid (f a) = guid a"
  shows "wf_map (upd_at k f m)"
  unfolding wf_map_def
proof (intro conjI ballI)
  show "distinct (map fst (upd_at k f m))"
    using assms(1) by (simp add: wf_map_def)
next
  fix kv assume "kv \<in> set (upd_at k f m)"
  then obtain a where a: "(fst kv, a) \<in> set m" "snd kv = a \<or> snd kv = f a"
    using set_upd_at by blast
  from a(1) assms(1) have "guid a = Some (fst kv)"
    by (auto simp: wf_map_def)
  with a(2) assms(2) show "guid (snd kv) = Some (fst kv)"
    by auto
qed

lemma guid_merge_entity [simp]: "guid (merge_entity e insts a) = guid a"
  by (simp add: merge_entity_eq)

lemma guid_apply_module [simp]: "guid (apply_module a mo) = guid a"
  by (simp add: apply_module_eq)

lemma evidence_merge_entity:
  "all_modules insts = [] \<Longrightarrow> evidence_of (merge_entity e insts a) = evidence_of a"
  by (simp add: merge_entity_eq evidence_of_def)

text \<open>What one turn of the entity loop does to the entity map.\<close>

lemma entity_step_applications:
  "applications (snd (entity_step srv ka p n st)) =
     (case fst (nerdgraphQuery srv getModulesInEntity
                  [(''entityGuid'', VStr (guid (snd ka))),
                   (''libraryName'', VStr (Some (libraryName st)))] st) of
        Inl a \<Rightarrow> applications st
      | Inr dat \<Rightarrow>
          (case entity_shape dat of
             None \<Rightarrow> applications st
           | Some (e, insts) \<Rightarrow> upd_at (fst ka) (merge_entity e insts) (applications st)))"
proof -
  let ?vars = "[(''entityGuid'', VStr (guid (snd ka))), (''libraryName'', VStr (Some (libraryName st)))]"
  obtain r st1 where q: "nerdgraphQuery srv getModulesInEntity ?vars st = (r, st1)"
    by (cases "nerdgraphQuery srv getModulesInEntity ?vars st")
  have a1: "applications st1 = applications st"
    using nerdgraphQuery_state [of srv getModulesInEntity ?vars st] q by simp
  show ?thesis
  proof (cases r)
    case (Inl a)
    with q have "fst (nerdgraphQuery srv getModulesInEntity ?vars st) = Inl a" by simp
    then obtain c where "a = Exit c" using nerdgraphQuery_exits by blast
    with q Inl a1 show ?thesis by (simp add: entity_step_def Let_def)
  next
    case (Inr dat)
    show ?thesis
    proof (cases "entity_shape dat")
      case None
      with q Inr a1 show ?thesis
        by (simp add: entity_step_def Let_def stdout_write_def stderr_write_def)
    next
      case (Some ei)
      obtain e insts where "ei = (e, insts)" by (cases ei)
      with Some q Inr a1 show ?thesis
        by (simp add: entity_step_def Let_def stdout_write_def)
    qed
  qed
qed

lemma entity_step_wf:
  assumes "wf_map (applications st)"
  shows "wf_map (applications (snd (entity_step srv ka p n st)))"
  using assms
  by (auto simp: entity_step_applications wf_upd_at split: sum.splits option.splits)

lemma entity_loop_wf:
  "wf_map (applications st) \<Longrightarrow> wf_map (applications (snd (entity_loop srv es p n st)))"
proof (induction es arbitrary: p st)
  case Nil
  then show ?case by simp
next
  case (Cons ka es)
  obtain r st1 where s: "entity_step srv ka p n st = (r, st1)" by (cases "entity_step srv ka p n st")
  with entity_step_wf [OF Cons.prems, of srv ka p n] have w: "wf_map (applications st1)" by simp
  show ?case
  proof (cases r)
    case (Inl a)
    with s w show ?thesis by simp
  next
    case (Inr u)
    with s Cons.IH [OF w, of "p + 1"] show ?thesis by simp
  qed
qed

lemma findModulesByEntity_wf:
  assumes "wf_map (applications st)"
  shows "wf_map (applications (snd (findModulesByEntity srv st)))"
proof -
  let ?n = "length (Object_values (applications st))"
  let ?st0 = "stdout_write (scanning_text 0 ?n) st"
  have w0: "wf_map (applications ?st0)" using assms by (simp add: stdout_write_def)
  obtain r st1 where l: "entity_loop srv (Object_entries (applications st)) 0 ?n ?st0 = (r, st1)"
    by (cases "entity_loop srv (Object_entries (applications st)) 0 ?n ?st0")
  with entity_loop_wf [OF w0, of srv "Object_entries (applications st)" 0 ?n]
  have w: "wf_map (applications st1)" by simp
  show ?thesis
  proof (cases r)
    case (Inl a)
    with l w show ?thesis by (simp add: findModulesByEntity_def Let_def)
  next
    case (Inr u)
    with l w show ?thesis
      by (simp add: findModulesByEntity_def Let_def writeResults_state stdout_write_def)
  qed
qed

lemma guid_synthesized [simp]: "guid (synthesized atob accId appName g) = Some g"
  by (simp add: synthesized_def Let_def)

lemma no_evidence_synthesized: "no_evidence (synthesized atob accId appName g)"
  by (simp add: no_evidence_def evidence_of_def synthesized_def Let_def)

lemma wf_apply_guid:
  assumes "wf_map apps"
  shows "wf_map (apply_guid atob accId appName mo apps g)"
proof (cases "map_of apps g")
  case None
  have "wf_map (set_prop g (synthesized atob accId appName g) apps)"
    using assms by (rule wf_set_prop) simp
  then have "wf_map (upd_at g (\<lambda>application. apply_module application mo)
                      (set_prop g (synthesized atob accId appName g) apps))"
    by (rule wf_upd_at) simp
  with None show ?thesis by (simp add: apply_guid_def Let_def)
next
  case (Some a)
  have "wf_map (upd_at g (\<lambda>application. apply_module application mo) apps)"
    using assms by (rule wf_upd_at) simp
  with Some show ?thesis by (simp add: apply_guid_def Let_def)
qed

lemma wf_foldl_apply_guid:
  "wf_map apps \<Longrightarrow> wf_map (foldl (apply_guid atob accId appName mo) apps gs)"
  by (induction gs arbitrary: apps) (simp_all add: wf_apply_guid)

lemma untouched_foldl_apply_guid:
  "g \<notin> set gs \<Longrightarrow> map_of (foldl (apply_guid atob accId appName mo) apps gs) g = map_of apps g"
  by (induction gs arbitrary: apps) (auto simp: map_of_apply_guid_other)

lemma apply_loaded_applications:
  "applications (snd (apply_loaded atob accId appName host gs mo st)) =
     (case gs of
        None \<Rightarrow> applications st
      | Some xs \<Rightarrow> foldl (apply_guid atob accId appName mo) (applications st) xs)"
  by (cases gs) (simp_all add: apply_loaded_def Let_def stdout_write_def)

lemma apply_loaded_wf:
  "wf_map (applications st) \<Longrightarrow>
   wf_map (applications (snd (apply_loaded atob accId appName host gs mo st)))"
  by (cases gs) (simp_all add: apply_loaded_applications wf_foldl_apply_guid)

lemma apply_loaded_untouched:
  "g \<notin> set (case gs of None \<Rightarrow> [] | Some xs \<Rightarrow> xs) \<Longrightarrow>
   map_of (applications (snd (apply_loaded atob accId appName host gs mo st))) g =
     map_of (applications st) g"
  by (cases gs) (simp_all add: apply_loaded_applications untouched_foldl_apply_guid)

lemma loaded_loop_wf:
  "wf_map (applications st) \<Longrightarrow>
   wf_map (applications (snd (loaded_loop atob accId appName host gs ms st)))"
proof (induction ms arbitrary: st)
  case Nil
  then show ?case by simp
next
  case (Cons mo ms)
  obtain r st1 where a: "apply_loaded atob accId appName host gs mo st = (r, st1)"
    by (cases "apply_loaded atob accId appName host gs mo st")
  with apply_loaded_wf [OF Cons.prems, of atob accId appName host gs mo]
  have w: "wf_map (applications st1)" by simp
  show ?case
  proof (cases r)
    case (Inl b)
    with a w show ?thesis by simp
  next
    case (Inr u)
    with a Cons.IH [OF w] show ?thesis by simp
  qed
qed

lemma loaded_loop_untouched:
  "g \<notin> set (case gs of None \<Rightarrow> [] | Some xs \<Rightarrow> xs) \<Longrightarrow>
   map_of (applications (snd (loaded_loop atob accId appName host gs ms st))) g =
     map_of (applications st) g"
proof (induction ms arbitrary: st)
  case Nil
  then show ?case by simp
next
  case (Cons mo ms)
  obtain r st1 where a: "apply_loaded atob accId appName host gs mo st = (r, st1)"
    by (cases "apply_loaded atob accId appName host gs mo st")
  with apply_loaded_untouched [OF Cons.prems, of atob accId appName host mo st]
  have u: "map_of (applications st1) g = map_of (applications st) g" by simp
  show ?case
  proof (cases r)
    case (Inl b)
    with a u show ?thesis by simp
  next
    case (Inr v)
    with a u Cons.IH [OF Cons.prems, of st1] show ?thesis by simp
  qed
qed

lemma process_result_wf:
  "wf_map (applications st) \<Longrightarrow> wf_map (applications (snd (process_result atob accId result st)))"
  by (simp add: process_result_def loaded_loop_wf split: option.splits)

lemma process_result_untouched:
  assumes "g \<notin> set (case mr_applicationGuids result of None \<Rightarrow> [] | Some xs \<Rightarrow> xs)"
  shows "map_of (applications (snd (process_result atob accId result st))) g =
           map_of (applications st) g"
  using assms by (simp add: process_result_def loaded_loop_untouched split: option.splits)

lemma process_result_no_modules:
  assumes "mr_loadedModules result = Some []"
  shows "process_result atob accId result st = (Inr (), st)"
  using assms by (simp add: process_result_def)

lemma results_loop_wf:
  "wf_map (applications st) \<Longrightarrow> wf_map (applications (snd (results_loop atob accId rs st)))"
proof (induction rs arbitrary: st)
  case Nil
  then show ?case by simp
next
  case (Cons x rs)
  obtain r st1 where a: "process_result atob accId x st = (r, st1)"
    by (cases "process_result atob accId x st")
  with process_result_wf [OF Cons.prems, of atob accId x]
  have w: "wf_map (applications st1)" by simp
  show ?case
  proof (cases r)
    case (Inl b)
    with a w show ?thesis by simp
  next
    case (Inr u)
    with a Cons.IH [OF w] show ?thesis by simp
  qed
qed

lemma account_pages_wf:
  assumes "account_pages atob0 srv0 accId0 batch0 dat0 st0 = Some r0"
  shows "wf_map (applications st0) \<longrightarrow> wf_map (applications (snd r0))"
proof (rule account_pages.raw_induct
    [where P = "\<lambda>atob srv accId batch dat st r.
                  wf_map (applications st) \<longrightarrow> wf_map (applications (snd r))",
     OF _ assms], goal_cases)
  case (1 pages atob srv accId batch dat st r)
  show ?case
  proof
    assume w0: "wf_map (applications st)"
    show "wf_map (applications (snd r))"
    proof (cases "modules_shape dat")
      case None
      with 1(2) have "r = (Inr (), st)" by simp
      with w0 show ?thesis by simp
    next
      case (Some ms)
      let ?rs = "case em_results ms of None \<Rightarrow> [] | Some rs \<Rightarrow> rs"
      obtain r1 st1 where rl: "results_loop atob accId ?rs st = (r1, st1)"
        by (cases "results_loop atob accId ?rs st")
      with results_loop_wf [OF w0, of atob accId ?rs] have w1: "wf_map (applications st1)" by simp
      show ?thesis
      proof (cases r1)
        case (Inl a)
        with 1(2) Some rl have "r = (Inl a, st1)" by simp
        with w1 show ?thesis by simp
      next
        case (Inr u)
        show ?thesis
        proof (cases "truthy (em_nextCursor ms)")
          case False
          with 1(2) Some rl Inr have "r = (Inr (), st1)" by simp
          with w1 show ?thesis by simp
        next
          case True
          let ?vars = "[(''accountId'', VInt accId), (''cursor'', VStr (em_nextCursor ms)),
                        (''libraryName'', VStr (Some (libraryName st1)))]"
          let ?st1 = "stdout_write (glyph_text batch) st1"
          obtain r2 st2 where nq: "nerdgraphQuery srv getMoreModulesInAccount ?vars ?st1 = (r2, st2)"
            by (cases "nerdgraphQuery srv getMoreModulesInAccount ?vars ?st1")
          have "applications st2 = applications ?st1"
            using nerdgraphQuery_state [of srv getMoreModulesInAccount ?vars ?st1] nq by simp
          with w1 have w2: "wf_map (applications st2)" by (simp add: stdout_write_def)
          show ?thesis
          proof (cases r2)
            case (Inl a)
            with 1(2) Some rl \<open>r1 = Inr u\<close> True nq have "r = (Inl a, st2)" by simp
            with w2 show ?thesis by simp
          next
            case (Inr dat')
            with 1(2) Some rl \<open>r1 = Inr u\<close> True nq
            have "pages atob srv accId (batch + 1) dat' st2 = Some r" by simp
            then have "wf_map (applications st2) \<longrightarrow> wf_map (applications (snd r))" by (rule 1(1))
            with w2 show ?thesis by simp
          qed
        qed
      qed
    qed
  qed
qed

lemma account_step_wf:
  assumes "account_step atob srv accId p n st = Some r" and "wf_map (applications st)"
  shows "wf_map (applications (snd r))"
proof -
  let ?st0 = "stdout_write ([CHR 0x0D] @ ''Scanning modules (account '' @ show_int accId @ '' - '' @
                show_nat (p + 1) @ '' of '' @ show_nat n @ '')...        '') st"
  let ?vars = "[(''accountId'', VInt accId), (''libraryName'', VStr (Some (libraryName ?st0)))]"
  from assms(1) obtain r1 st1 where t: "account_try atob srv accId ?st0 = Some (r1, st1)"
    by (cases "account_try atob srv accId ?st0") (auto simp: account_step_def)
  obtain r2 st2 where nq: "nerdgraphQuery srv getModulesInAccount ?vars ?st0 = (r2, st2)"
    by (cases "nerdgraphQuery srv getModulesInAccount ?vars ?st0")
  have "applications st2 = applications ?st0"
    using nerdgraphQuery_state [of srv getModulesInAccount ?vars ?st0] nq by simp
  with assms(2) have w2: "wf_map (applications st2)" by (simp add: stdout_write_def)
  have w1: "wf_map (applications st1)"
  proof (cases r2)
    case (Inl a)
    with t nq have "st1 = st2" by (simp add: account_try_def)
    with w2 show ?thesis by simp
  next
    case (Inr dat)
    with t nq have "account_pages atob srv accId 1 dat st2 = Some (r1, st1)"
      by (simp add: account_try_def)
    from account_pages_wf [OF this] w2 show ?thesis by simp
  qed
  from assms(1) t w1 show ?thesis
    by (auto simp: account_step_def stderr_write_def split: sum.splits abort.splits)
qed

lemma account_loop_wf:
  "account_loop atob srv ids p n st = Some r \<Longrightarrow> wf_map (applications st) \<Longrightarrow>
   wf_map (applications (snd r))"
proof (induction ids arbitrary: p st)
  case Nil
  then show ?case by auto
next
  case (Cons accId ids)
  from Cons.prems(1) obtain r1 st1 where s: "account_step atob srv accId p n st = Some (r1, st1)"
    by (cases "account_step atob srv accId p n st") auto
  from account_step_wf [OF s Cons.prems(2)] have w: "wf_map (applications st1)" by simp
  show ?case
  proof (cases r1)
    case (Inl a)
    with Cons.prems(1) s have "r = (Inl a, st1)" by simp
    with w show ?thesis by simp
  next
    case (Inr u)
    with Cons.prems(1) s have "account_loop atob srv ids (p + 1) n st1 = Some r" by simp
    then show ?thesis using w by (rule Cons.IH)
  qed
qed

lemma findModulesByAccount_wf:
  assumes "findModulesByAccount atob srv st = Some r" and "wf_map (applications st)"
  shows "wf_map (applications (snd r))"
proof -
  let ?n = "length (accountIds st)"
  from assms(1) obtain r1 st1 where l: "account_loop atob srv (accountIds st) 0 ?n st = Some (r1, st1)"
    by (cases "account_loop atob srv (accountIds st) 0 ?n st")
       (auto simp: findModulesByAccount_def Let_def)
  from account_loop_wf [OF l assms(2)] have w: "wf_map (applications st1)" by simp
  show ?thesis
  proof (cases r1)
    case (Inl a)
    with assms(1) l have "r = (Inl a, st1)" by (simp add: findModulesByAccount_def Let_def)
    with w show ?thesis by simp
  next
    case (Inr u)
    with assms(1) l w show ?thesis
      by (auto simp: findModulesByAccount_def Let_def writeResults_state stdout_write_def)
  qed
qed

lemma guid_app_of_outline [simp]: "guid (app_of_outline e) = ol_guid e"
  by (simp add: app_of_outline_def)

lemma no_evidence_app_of_outline: "no_evidence (app_of_outline e)"
  by (simp add: no_evidence_def evidence_of_def app_of_outline_def)

lemma wf_add_entity: "wf_map m \<Longrightarrow> wf_map (add_entity m e)"
  by (cases "ol_guid e") (simp_all add: add_entity_def wf_set_prop)

lemma set_set_prop: "set (set_prop k v m) \<subseteq> insert (k, v) (set m)"
  using set_replace [of k v m] by (auto simp: set_prop_def)

lemma no_evidence_add_entity:
  assumes "\<forall>kv \<in> set m. no_evidence (snd kv)"
  shows "\<forall>kv \<in> set (add_entity m e). no_evidence (snd kv)"
proof (cases "ol_guid e")
  case None
  with assms show ?thesis by (simp add: add_entity_def)
next
  case (Some g)
  show ?thesis
  proof (cases "g = []")
    case True
    with Some assms show ?thesis by (simp add: add_entity_def)
  next
    case False
    have "set (set_prop g (app_of_outline e) m) \<subseteq> insert (g, app_of_outline e) (set m)"
      by (rule set_set_prop)
    with assms no_evidence_app_of_outline [of e] have
      "\<forall>kv \<in> set (set_prop g (app_of_outline e) m). no_evidence (snd kv)"
      by auto
    with Some False show ?thesis by (simp add: add_entity_def)
  qed
qed

lemma foldl_add_entity_preserves:
  assumes "\<And>m e. Q m \<Longrightarrow> Q (add_entity m e)"
  shows "Q m \<Longrightarrow> Q (foldl add_entity m es)"
  by (induction es arbitrary: m) (simp_all add: assms)

lemma services_loop_preserves:
  assumes run: "services_loop srv0 batch0 rs0 st0 = Some r0"
    and step: "\<And>m e. Q m \<Longrightarrow> Q (add_entity m e)"
  shows "argv (snd r0) = argv st0 \<and> (Q (applications st0) \<longrightarrow> Q (applications (snd r0)))"
proof (rule services_loop.raw_induct
    [where P = "\<lambda>srv batch rs st r.
        argv (snd r) = argv st \<and> (Q (applications st) \<longrightarrow> Q (applications (snd r)))",
     OF _ run], goal_cases)
  case (1 loop srv batch rs st r)
  show ?case
  proof (cases rs)
    case None
    with 1(2) have "r = (Inr (), st)" by simp
    then show ?thesis by simp
  next
    case (Some d)
    show ?thesis
    proof (cases "page_of d")
      case None
      with 1(2) Some have "r = (Inl (Throw TypeError), st)" by simp
      then show ?thesis by simp
    next
      case (Some pc)
      obtain ents cursor where pc: "pc = (ents, cursor)" by (cases pc)
      let ?st1 = "st\<lparr>applications := foldl add_entity (applications st) ents\<rparr>"
      have q1: "Q (applications st) \<longrightarrow> Q (applications ?st1)"
        by (simp add: foldl_add_entity_preserves [of Q, OF step])
      show ?thesis
      proof (cases "truthy cursor")
        case False
        with 1(2) \<open>rs = Some d\<close> Some pc have "r = (Inr (), ?st1)" by simp
        with q1 show ?thesis by simp
      next
        case True
        let ?st2 = "stdout_write (glyph_text batch) ?st1"
        obtain r2 st2 where nq:
          "nerdgraphQuery srv getMoreServices [(''cursor'', VStr cursor)] ?st2 = (r2, st2)"
          by (cases "nerdgraphQuery srv getMoreServices [(''cursor'', VStr cursor)] ?st2")
        have same: "applications st2 = applications ?st2" "argv st2 = argv ?st2"
          using nerdgraphQuery_state [of srv getMoreServices "[(''cursor'', VStr cursor)]" ?st2] nq
          by simp_all
        have v2: "argv st2 = argv st"
          using same(2) by (simp add: stdout_write_def)
        have q2: "Q (applications st) \<longrightarrow> Q (applications st2)"
          using q1 same(1) by (simp add: stdout_write_def)
        show ?thesis
        proof (cases r2)
          case (Inl a)
          with 1(2) \<open>rs = Some d\<close> Some pc True nq have "r = (Inl a, st2)" by simp
          with q2 v2 show ?thesis by simp
        next
          case (Inr rs')
          with 1(2) \<open>rs = Some d\<close> Some pc True nq
          have "loop srv (batch + 1) rs' st2 = Some r" by simp
          then have "argv (snd r) = argv st2 \<and>
                     (Q (applications st2) \<longrightarrow> Q (applications (snd r)))" by (rule 1(1))
          with q2 v2 show ?thesis by simp
        qed
      qed
    qed
  qed
qed

lemma buildDirectory_preserves:
  assumes run: "buildDirectory srv st = Some r"
    and step: "\<And>m e. Q m \<Longrightarrow> Q (add_entity m e)"
  shows "argv (snd r) = argv st \<and> (Q (applications st) \<longrightarrow> Q (applications (snd r)))"
proof -
  let ?st0 = "stdout_write ''Scanning your accounts, this may take some time...\<newline>'' st"
  obtain r1 st1 where nq: "nerdgraphQuery srv getServices [] ?st0 = (r1, st1)"
    by (cases "nerdgraphQuery srv getServices [] ?st0")
  have same: "applications st1 = applications ?st0" "argv st1 = argv ?st0"
    using nerdgraphQuery_state [of srv getServices "[]" ?st0] nq by simp_all
  have v1: "argv st1 = argv st" using same(2) by (simp add: stdout_write_def)
  have q1: "Q (applications st) \<longrightarrow> Q (applications st1)"
    using same(1) by (simp add: stdout_write_def)
  show ?thesis
  proof (cases r1)
    case (Inl a)
    with run nq have "r = (Inl a, st1)" by (simp add: buildDirectory_def)
    with q1 v1 show ?thesis by simp
  next
    case (Inr rs)
    show ?thesis
    proof (cases "search_of rs")
      case None
      with run nq Inr have "r = (Inl (Throw TypeError), st1)" by (simp add: buildDirectory_def)
      with q1 v1 show ?thesis by simp
    next
      case (Some es)
      let ?st1 = "stdout_write (''Checking '' @ tpl_int (es_count es) @ '' services...   '') st1"
      from run nq Inr Some obtain r2 st2 where
        l: "services_loop srv 1 rs ?st1 = Some (r2, st2)"
        by (cases "services_loop srv 1 rs ?st1") (auto simp: buildDirectory_def)
      from services_loop_preserves [of srv 1 rs ?st1 "(r2, st2)" Q, OF l step]
      have v2: "argv st2 = argv st" and q2: "Q (applications st) \<longrightarrow> Q (applications st2)"
        using v1 q1 by (simp_all add: stdout_write_def)
      from run nq Inr Some l have "argv (snd r) = argv st2" "applications (snd r) = applications st2"
        by (auto simp: buildDirectory_def stdout_write_def split: sum.splits)
      with v2 q2 show ?thesis by simp
    qed
  qed
qed

lemma findServices_wf:
  assumes "findServices atob srv st = Some r" and "wf_map (applications st)"
  shows "wf_map (applications (snd r))"
proof -
  from assms(1) obtain r1 st1 where b: "buildDirectory srv st = Some (r1, st1)"
    by (cases "buildDirectory srv st") (auto simp: findServices_def)
  from buildDirectory_preserves [of srv st "(r1, st1)" wf_map, OF b wf_add_entity] assms(2)
  have w: "wf_map (applications st1)" by simp
  show ?thesis
  proof (cases r1)
    case (Inl a)
    with assms(1) b have "r = (Inl a, st1)" by (simp add: findServices_def)
    with w show ?thesis by simp
  next
    case (Inr u)
    show ?thesis
    proof (cases "''--quick-scan'' \<in> set (argv st1)")
      case False
      with assms(1) b Inr have "r = findModulesByEntity srv st1" by (simp add: findServices_def)
      with findModulesByEntity_wf [OF w, of srv] show ?thesis by simp
    next
      case True
      with assms(1) b Inr have "findModulesByAccount atob srv st1 = Some r"
        by (simp add: findServices_def)
      then show ?thesis using w by (rule findModulesByAccount_wf)
    qed
  qed
qed

lemma evidence_upd_at:
  assumes "\<And>a. evidence_of (f a) = evidence_of a"
  shows "map (\<lambda>kv. (fst kv, evidence_of (snd kv))) (upd_at k f m) =
           map (\<lambda>kv. (fst kv, evidence_of (snd kv))) m"
  by (induction m) (auto simp: upd_at_def assms)

lemma entity_step_no_modules:
  assumes "fst (nerdgraphQuery srv getModulesInEntity
                  [(''entityGuid'', VStr (guid a)), (''libraryName'', VStr (Some (libraryName st)))] st) =
             Inr dat"
    and "lookup_modules dat = []"
  shows "map (\<lambda>kv. (fst kv, evidence_of (snd kv))) (applications (snd (entity_step srv (k, a) p n st))) =
           map (\<lambda>kv. (fst kv, evidence_of (snd kv))) (applications st)"
proof (cases "entity_shape dat")
  case None
  with assms(1) show ?thesis by (simp add: entity_step_applications)
next
  case (Some ei)
  obtain e insts where ei: "ei = (e, insts)" by (cases ei)
  with Some assms(2) have "all_modules insts = []" by (simp add: lookup_modules_def)
  then have "evidence_of (merge_entity e insts x) = evidence_of x" for x
    by (rule evidence_merge_entity)
  then have "map (\<lambda>kv. (fst kv, evidence_of (snd kv))) (upd_at k (merge_entity e insts) (applications st)) =
           map (\<lambda>kv. (fst kv, evidence_of (snd kv))) (applications st)"
    by (rule evidence_upd_at)
  with Some ei assms(1) show ?thesis by (simp add: entity_step_applications)
qed

lemma entity_step_other_keys:
  "k' \<noteq> k \<Longrightarrow>
   map_of (applications (snd (entity_step srv (k, a) p n st))) k' = map_of (applications st) k'"
  by (simp add: entity_step_applications map_of_upd_at split: sum.splits option.splits)

text \<open>
  C8. Every operation that writes into the entity map keeps it a directory keyed by guid:
  the directory build, the per-entity enrichment, the per-account synthesis and merge,
  and the whole scan, whenever they end, leave a map in which no key occurs twice and
  every record carries its key as its guid. Evidence appears only where modules were
  found: the directory build adds records without evidence; a per-entity lookup that
  lists no module leaves the evidence fields of every record as they were, and a lookup
  never touches the records under other keys; an account-wide result leaves the records
  of the guids it does not name as they were, changes nothing when it lists no module,
  and a record it synthesises starts without evidence.
\<close>

theorem entity_map_invariant:
  "(\<forall>r. buildDirectory srv st = Some r \<longrightarrow> wf_map (applications st) \<longrightarrow>
        wf_map (applications (snd r))) \<and>
   (\<forall>r. buildDirectory srv st = Some r \<longrightarrow>
        (\<forall>kv \<in> set (applications st). no_evidence (snd kv)) \<longrightarrow>
        (\<forall>kv \<in> set (applications (snd r)). no_evidence (snd kv))) \<and>
   (wf_map (applications st) \<longrightarrow> wf_map (applications (snd (findModulesByEntity srv st)))) \<and>
   (\<forall>dat. fst (nerdgraphQuery srv getModulesInEntity
                  [(''entityGuid'', VStr (guid a)),
                   (''libraryName'', VStr (Some (libraryName st)))] st) = Inr dat \<longrightarrow>
          lookup_modules dat = [] \<longrightarrow>
          map (\<lambda>kv. (fst kv, evidence_of (snd kv)))
              (applications (snd (entity_step srv (k, a) p n st))) =
            map (\<lambda>kv. (fst kv, evidence_of (snd kv))) (applications st)) \<and>
   (\<forall>k'. k' \<noteq> k \<longrightarrow>
      map_of (applications (snd (entity_step srv (k, a) p n st))) k' = map_of (applications st) k') \<and>
   (\<forall>r. findModulesByAccount atob srv st = Some r \<longrightarrow> wf_map (applications st) \<longrightarrow>
        wf_map (applications (snd r))) \<and>
   (g \<notin> set (case mr_applicationGuids result of None \<Rightarrow> [] | Some gs \<Rightarrow> gs) \<longrightarrow>
      map_of (applications (snd (process_result atob accId result st))) g =
        map_of (applications st) g) \<and>
   (mr_loadedModules result = Some [] \<longrightarrow> process_result atob accId result st = (Inr (), st)) \<and>
   no_evidence (synthesized atob accId appName g) \<and>
   (\<forall>r. findServices atob srv st = Some r \<longrightarrow> wf_map (applications st) \<longrightarrow>
        wf_map (applications (snd r)))"
proof (intro conjI allI impI)
  fix r assume "buildDirectory srv st = Some r" and "wf_map (applications st)"
  with buildDirectory_preserves [of srv st r wf_map, OF _ wf_add_entity]
  show "wf_map (applications (snd r))" by simp
next
  fix r assume b: "buildDirectory srv st = Some r"
    and e: "\<forall>kv \<in> set (applications st). no_evidence (snd kv)"
  from buildDirectory_preserves
         [of srv st r "\<lambda>m. \<forall>kv \<in> set m. no_evidence (snd kv)", OF b no_evidence_add_entity] e
  show "\<forall>kv \<in> set (applications (snd r)). no_evidence (snd kv)" by simp
next
  assume "wf_map (applications st)"
  then show "wf_map (applications (snd (findModulesByEntity srv st)))"
    by (rule findModulesByEntity_wf)
next
  fix dat
  assume "fst (nerdgraphQuery srv getModulesInEntity
                  [(''entityGuid'', VStr (guid a)),
                   (''libraryName'', VStr (Some (libraryName st)))] st) = Inr dat"
    and "lookup_modules dat = []"
  then show "map (\<lambda>kv. (fst kv, evidence_of (snd kv)))
              (applications (snd (entity_step srv (k, a) p n st))) =
            map (\<lambda>kv. (fst kv, evidence_of (snd kv))) (applications st)"
    by (rule entity_step_no_modules)
next
  fix k' :: string assume "k' \<noteq> k"
  then show "map_of (applications (snd (entity_step srv (k, a) p n st))) k' =
             map_of (applications st) k'"
    by (rule entity_step_other_keys)
next
  fix r assume "findModulesByAccount atob srv st = Some r" and "wf_map (applications st)"
  then show "wf_map (applications (snd r))" by (rule findModulesByAccount_wf)
next
  assume "g \<notin> set (case mr_applicationGuids result of None \<Rightarrow> [] | Some gs \<Rightarrow> gs)"
  then show "map_of (applications (snd (process_result atob accId result st))) g =
        map_of (applications st) g"
    by (rule process_result_untouched)
next
  assume "mr_loadedModules result = Some []"
  then show "process_result atob accId result st = (Inr (), st)"
    by (rule process_result_no_modules)
next
  show "no_evidence (synthesized atob accId appName g)"
    by (rule no_evidence_synthesized)
next
  fix r assume "findServices atob srv st = Some r" and "wf_map (applications st)"
  then show "wf_map (applications (snd r))" by (rule findServices_wf)
qed

lemma wf_st_two: "wf_map (applications st_two)"
  by (simp add: st_two_fields wf_map_def app1_def app2_def)

lemma wf_st_one: "wf_map (applications st_one)"
  by (simp add: st_one_fields wf_map_def app1_def)

lemma pages_run:
  "\<exists>st'. buildDirectory srv_pages st_init = Some (Inr (), st') \<and>
         applications st' = [(''gA'', app_of_outline ol_a2), (''gB'', app_of_outline ol_b)]"
proof -
  let ?ps = "[([ol_a, ol_b, ol_null], Some ''c1''), ([ol_a2, ol_blank], None)]"
  have sv: "serves srv_pages (sent st_init) ?ps"
    by (simp add: st_init_fields srv_pages_def page_of_data_of_page)
  have ch: "chained ?ps"
    by simp
  from buildDirectory_pages [OF sv ch] obtain st' where
    a: "buildDirectory srv_pages st_init = Some (Inr (), st')" and
    d: "applications st' = foldl add_entity (applications st_init) (concat (map fst ?ps))"
    by (elim exE conjE)
  have d': "applications st' = [(''gA'', app_of_outline ol_a2), (''gB'', app_of_outline ol_b)]"
    using d by (simp add: st_init_fields add_entity_def ol_guids set_prop_def)
  show ?thesis
    by (rule exI [of _ st']) (intro conjI a d')
qed

lemma account_run: "\<exists>r. findModulesByAccount atob_std srv_account st_one = Some r"
proof -
  let ?st0 = "stdout_write ([CHR 0x0D] @ ''Scanning modules (account '' @ show_int 1 @ '' - '' @
                show_nat (0 + 1) @ '' of '' @ show_nat 1 @ '')...        '') st_one"
  let ?d = "data_of_modules [result_new] None"
  obtain r1 st1 where nq: "nerdgraphQuery srv_account getModulesInAccount
             [(''accountId'', VInt 1), (''libraryName'', VStr (Some (libraryName ?st0)))] ?st0 = (r1, st1)"
    by (cases "nerdgraphQuery srv_account getModulesInAccount
             [(''accountId'', VInt 1), (''libraryName'', VStr (Some (libraryName ?st0)))] ?st0")
  have "fst (nerdgraphQuery srv_account getModulesInAccount
             [(''accountId'', VInt 1), (''libraryName'', VStr (Some (libraryName ?st0)))] ?st0) =
          Inr (Some ?d)"
    by (rule nerdgraphQuery_first_data [of _ _ "\<lparr>resp_errors = None, resp_data = Some ?d\<rparr>"])
       (simp_all add: srv_account_def)
  with nq have r1: "r1 = Inr (Some ?d)" by simp
  have sh: "modules_shape (Some ?d) = Some \<lparr>em_nextCursor = None, em_results = Some [result_new]\<rparr>"
    by (simp add: modules_shape_def data_of_modules_def)
  have "\<exists>r. account_pages atob_std srv_account 1 1 (Some ?d) st1 = Some r"
    by (subst account_pages.simps) (simp add: sh split: prod.splits sum.splits)
  then obtain r2 where p: "account_pages atob_std srv_account 1 1 (Some ?d) st1 = Some r2" ..
  have t: "account_try atob_std srv_account 1 ?st0 = Some r2"
    using nq r1 p by (simp add: account_try_def)
  have "\<exists>r. account_step atob_std srv_account 1 0 1 st_one = Some r"
    by (simp only: account_step_def t) (simp split: prod.splits sum.splits abort.splits)
  then have "\<exists>r. account_loop atob_std srv_account [1] 0 1 st_one = Some r"
    by (auto split: prod.splits sum.splits)
  moreover have "accountIds st_one = [1]" by (simp add: st_one_def)
  ultimately show ?thesis
    by (auto simp: findModulesByAccount_def Let_def split: prod.splits sum.splits)
qed

lemma idle_lookup:
  "fst (nerdgraphQuery srv_idle getModulesInEntity
          [(''entityGuid'', VStr (guid app1)), (''libraryName'', VStr (Some (libraryName st_one)))]
          st_one) = Inr (Some (data_of_entity entity_idle))"
  "lookup_modules (Some (data_of_entity entity_idle)) = []"
proof -
  show "fst (nerdgraphQuery srv_idle getModulesInEntity
          [(''entityGuid'', VStr (guid app1)), (''libraryName'', VStr (Some (libraryName st_one)))]
          st_one) = Inr (Some (data_of_entity entity_idle))"
    by (rule nerdgraphQuery_first_data
              [of _ _ "\<lparr>resp_errors = None, resp_data = Some (data_of_entity entity_idle)\<rparr>"])
       (simp_all add: srv_idle_def)
  show "lookup_modules (Some (data_of_entity entity_idle)) = []"
    by (simp add: lookup_modules_def entity_shape_def data_of_entity_def entity_idle_def
          all_modules_def)
qed

theorem entity_map_invariant_witness:
  "wf_map (applications st_two) \<and>
   wf_map (applications (snd (findModulesByEntity srv_ok_then_cert st_two))) \<and>
   (\<exists>r. buildDirectory srv_pages st_init = Some r \<and> wf_map (applications (snd r)) \<and>
        list_all (\<lambda>kv. no_evidence (snd kv)) (applications (snd r))) \<and>
   (\<exists>r. findServices atob_std srv_pages st_init = Some r \<and> wf_map (applications (snd r))) \<and>
   (\<exists>r. findModulesByAccount atob_std srv_account st_one = Some r \<and>
        wf_map (applications (snd r))) \<and>
   map (\<lambda>kv. (fst kv, evidence_of (snd kv)))
       (applications (snd (entity_step srv_idle (''g1'', app1) 0 1 st_one))) =
     [(''g1'', (None, None, None, None))] \<and>
   map_of (applications (snd (entity_step srv_full (''g1'', app1) 0 2 st_two))) ''g2'' = Some app2 \<and>
   map_of (applications (snd (process_result atob_std 1 result_new st_one))) ''g1'' = Some app1 \<and>
   process_result atob_std 1 (result_new\<lparr>mr_loadedModules := Some []\<rparr>) st_one = (Inr (), st_one)"
proof -
  note two = entity_map_invariant
    [where srv = srv_ok_then_cert and st = st_two and k = "''g1''" and a = app1 and p = 0 and n = 2]
  note full = entity_map_invariant
    [where srv = srv_full and st = st_two and k = "''g1''" and a = app1 and p = 0 and n = 2]
  note init = entity_map_invariant [where srv = srv_pages and st = st_init and atob = atob_std]
  note idle = entity_map_invariant
    [where srv = srv_idle and st = st_one and k = "''g1''" and a = app1 and p = 0 and n = 1]
  note acct = entity_map_invariant
    [where srv = srv_account and st = st_one and atob = atob_std and accId = 1 and
       result = result_new and g = "''g1''"]
  note none = entity_map_invariant
    [where st = st_one and atob = atob_std and accId = 1 and
       result = "result_new\<lparr>mr_loadedModules := Some []\<rparr>"]
  have A: "wf_map (applications st_two)" by (rule wf_st_two)
  have "wf_map (applications st_two) \<longrightarrow>
        wf_map (applications (snd (findModulesByEntity srv_ok_then_cert st_two)))"
    by (rule two [THEN conjunct2, THEN conjunct2, THEN conjunct1])
  with A have B: "wf_map (applications (snd (findModulesByEntity srv_ok_then_cert st_two)))" by simp
  have w0: "wf_map (applications st_init)" by (simp add: st_init_fields wf_map_def)
  have e0: "\<forall>kv \<in> set (applications st_init). no_evidence (snd kv)" by (simp add: st_init_fields)
  from pages_run obtain st' where
    run: "buildDirectory srv_pages st_init = Some (Inr (), st')" by (elim exE conjE)
  have i1: "\<forall>r. buildDirectory srv_pages st_init = Some r \<longrightarrow> wf_map (applications st_init) \<longrightarrow>
        wf_map (applications (snd r))"
    and i2: "\<forall>r. buildDirectory srv_pages st_init = Some r \<longrightarrow>
        (\<forall>kv \<in> set (applications st_init). no_evidence (snd kv)) \<longrightarrow>
        (\<forall>kv \<in> set (applications (snd r)). no_evidence (snd kv))"
    and i3: "\<forall>r. findServices atob_std srv_pages st_init = Some r \<longrightarrow>
        wf_map (applications st_init) \<longrightarrow> wf_map (applications (snd r))"
    by (rule init [THEN conjunct1], rule init [THEN conjunct2, THEN conjunct1], rule init [THEN conjunct2, THEN conjunct2, THEN conjunct2, THEN conjunct2, THEN conjunct2, THEN conjunct2, THEN conjunct2, THEN conjunct2, THEN conjunct2])
  from i1 run w0 have c1: "wf_map (applications (snd (Inr () :: abort + unit, st')))" by blast
  from i2 run e0 have "\<forall>kv \<in> set (applications (snd (Inr () :: abort + unit, st'))). no_evidence (snd kv)"
    by blast
  then have c2: "list_all (\<lambda>kv. no_evidence (snd kv)) (applications (snd (Inr () :: abort + unit, st')))"
    by (simp add: list_all_iff)
  have C: "\<exists>r. buildDirectory srv_pages st_init = Some r \<and> wf_map (applications (snd r)) \<and>
        list_all (\<lambda>kv. no_evidence (snd kv)) (applications (snd r))"
    by (rule exI [of _ "(Inr (), st')"]) (intro conjI run c1 c2)
  have "argv st' = argv st_init"
    using buildDirectory_preserves [of srv_pages st_init "(Inr (), st')" wf_map, OF run wf_add_entity]
    by simp
  then have "''--quick-scan'' \<notin> set (argv st')" by (simp add: st_init_def)
  with run have fs: "findServices atob_std srv_pages st_init = Some (findModulesByEntity srv_pages st')"
    by (simp add: findServices_def)
  from i3 fs w0 have "wf_map (applications (snd (findModulesByEntity srv_pages st')))" by blast
  with fs have D: "\<exists>r. findServices atob_std srv_pages st_init = Some r \<and>
        wf_map (applications (snd r))" by blast
  from account_run obtain ra where ar: "findModulesByAccount atob_std srv_account st_one = Some ra" ..
  have a1: "\<forall>r. findModulesByAccount atob_std srv_account st_one = Some r \<longrightarrow>
        wf_map (applications st_one) \<longrightarrow> wf_map (applications (snd r))"
    and a2: "''g1'' \<notin> set (case mr_applicationGuids result_new of None \<Rightarrow> [] | Some gs \<Rightarrow> gs) \<longrightarrow>
      map_of (applications (snd (process_result atob_std 1 result_new st_one))) ''g1'' =
        map_of (applications st_one) ''g1''"
    by (rule acct [THEN conjunct2, THEN conjunct2, THEN conjunct2, THEN conjunct2, THEN conjunct2, THEN conjunct1], rule acct [THEN conjunct2, THEN conjunct2, THEN conjunct2, THEN conjunct2, THEN conjunct2, THEN conjunct2, THEN conjunct1])
  from a1 ar wf_st_one have "wf_map (applications (snd ra))" by blast
  with ar have E: "\<exists>r. findModulesByAccount atob_std srv_account st_one = Some r \<and>
        wf_map (applications (snd r))" by blast
  have "\<forall>dat. fst (nerdgraphQuery srv_idle getModulesInEntity
                  [(''entityGuid'', VStr (guid app1)),
                   (''libraryName'', VStr (Some (libraryName st_one)))] st_one) = Inr dat \<longrightarrow>
          lookup_modules dat = [] \<longrightarrow>
          map (\<lambda>kv. (fst kv, evidence_of (snd kv)))
              (applications (snd (entity_step srv_idle (''g1'', app1) 0 1 st_one))) =
            map (\<lambda>kv. (fst kv, evidence_of (snd kv))) (applications st_one)"
    by (rule idle [THEN conjunct2, THEN conjunct2, THEN conjunct2, THEN conjunct1])
  with idle_lookup have "map (\<lambda>kv. (fst kv, evidence_of (snd kv)))
              (applications (snd (entity_step srv_idle (''g1'', app1) 0 1 st_one))) =
            map (\<lambda>kv. (fst kv, evidence_of (snd kv))) (applications st_one)" by blast
  then have F: "map (\<lambda>kv. (fst kv, evidence_of (snd kv)))
       (applications (snd (entity_step srv_idle (''g1'', app1) 0 1 st_one))) =
     [(''g1'', (None, None, None, None))]"
    by (simp add: st_one_fields evidence_of_def app1_def)
  have "\<forall>k'. k' \<noteq> ''g1'' \<longrightarrow>
      map_of (applications (snd (entity_step srv_full (''g1'', app1) 0 2 st_two))) k' =
        map_of (applications st_two) k'"
    by (rule full [THEN conjunct2, THEN conjunct2, THEN conjunct2, THEN conjunct2, THEN conjunct1])
  then have "map_of (applications (snd (entity_step srv_full (''g1'', app1) 0 2 st_two))) ''g2'' =
        map_of (applications st_two) ''g2''" by simp
  then have G: "map_of (applications (snd (entity_step srv_full (''g1'', app1) 0 2 st_two))) ''g2'' =
        Some app2" by (simp add: st_two_fields)
  from a2 have H: "map_of (applications (snd (process_result atob_std 1 result_new st_one))) ''g1'' =
      Some app1" by (simp add: result_new_def st_one_fields)
  have "mr_loadedModules (result_new\<lparr>mr_loadedModules := Some []\<rparr>) = Some [] \<longrightarrow>
        process_result atob_std 1 (result_new\<lparr>mr_loadedModules := Some []\<rparr>) st_one = (Inr (), st_one)"
    by (rule none [THEN conjunct2, THEN conjunct2, THEN conjunct2, THEN conjunct2, THEN conjunct2, THEN conjunct2, THEN conjunct2, THEN conjunct1])
  then have I: "process_result atob_std 1 (result_new\<lparr>mr_loadedModules := Some []\<rparr>) st_one =
       (Inr (), st_one)" by simp
  show ?thesis
    by (intro conjI A B C D E F G H I)
qed

end
